theory Spec2Isabelle
  imports Main "HOL-Library.Word"
begin

unbundle bit_operations_syntax

section \<open>Ingest path (insert.go)\<close>

subsection \<open>Bytes, instants and Go values\<close>

type_synonym byte = "8 word"
type_synonym bytes = "byte list"

text \<open>
  \<^verbatim>\<open>time.Time\<close> as this code uses it: an instant, counted in nanoseconds since the Unix
  epoch, and \<^verbatim>\<open>time.Duration\<close>, a count of nanoseconds. The zero \<^verbatim>\<open>Time\<close> is
  January 1 of year 1, which is 62135596800 seconds before the epoch. \<^verbatim>\<open>UnixNano\<close> is
  computed in 64-bit arithmetic: it is the instant only between the years 1678 and 2262.
\<close>
type_synonym Time = int
type_synonym Duration = int

definition zeroTime :: Time where
  "zeroTime = - 62135596800000000000"

definition IsZero :: "Time \<Rightarrow> bool" where
  "IsZero t = (t = zeroTime)"

definition UnixNano :: "Time \<Rightarrow> int" where
  "UnixNano t = sint (word_of_int t :: 64 word)"

definition Add :: "Time \<Rightarrow> Duration \<Rightarrow> Time" where
  "Add t d = t + d"

text \<open>\<^verbatim>\<open>time.Time.Before\<close>.\<close>
definition Before :: "Time \<Rightarrow> Time \<Rightarrow> bool" where
  "Before a b = (a < b)"

text \<open>What a call does: it returns a value or it panics.\<close>
datatype 'a outcome = Returned 'a | Panicked

text \<open>A float64 is kept as its IEEE-754 bit pattern; no arithmetic is done on it here.\<close>
type_synonym float64 = "64 word"

text \<open>
  The dynamically typed values (\<^verbatim>\<open>interface{}\<close>) that insert.go inspects: the cases of
  the type switch in \<^verbatim>\<open>InsertRaw\<close>, the nil and bool results of \<^verbatim>\<open>Expr.Eval\<close>, and
  everything else.
\<close>
datatype Value =
    VNil
  | VBool bool
  | VFloat64 float64
  | VInt int
  | VFloat64s "float64 list"
  | VInts "int list"
  | VOther string

text \<open>
  An expression of a WHERE clause, as what its \<^verbatim>\<open>Eval\<close> returns on a ByteMap.
\<close>
type_synonym Expr = "bytes \<Rightarrow> Value"

text \<open>
  \<^verbatim>\<open>core.GroupBy\<close>: a name and an expression, as what its \<^verbatim>\<open>Eval\<close> does on a
  ByteMap. \<^verbatim>\<open>doInsert\<close> calls it after it has moved the clock, so that a panic in it is
  kept apart from a value.
\<close>
record GroupBy =
  Name :: string
  Expr :: "bytes \<Rightarrow> Value outcome"

text \<open>\<^verbatim>\<open>wal.Offset\<close> is opaque to this code.\<close>
type_synonym WalOffset = bytes

datatype error =
    ErrNestedFromSubquery
  | ErrDeadlineExceeded
  | InsertOnFollower
  | UnknownStream string
  | Err string

subsection \<open>The encoding package\<close>

text \<open>\<^verbatim>\<open>encoding.Binary\<close> is a byte order fixed by the encoding package.\<close>
datatype ByteOrder = BigEndian | LittleEndian

text \<open>
  Modelled from the spec: the constants \<^verbatim>\<open>encoding.Width64bits\<close> and
  \<^verbatim>\<open>encoding.Width32bits\<close>, which are not among the sources. Spec 4.4 and 6: the
  timestamp takes 8 bytes of a frame and a length prefix 4.
\<close>
definition Width64bits :: nat where
  "Width64bits = 8"

definition Width32bits :: nat where
  "Width32bits = 4"

text \<open>
  \<^verbatim>\<open>PutUint32\<close>, \<^verbatim>\<open>Uint32\<close>, \<^verbatim>\<open>PutUint64\<close> and \<^verbatim>\<open>Uint64\<close> of a
  \<^verbatim>\<open>binary.ByteOrder\<close> of Go's standard library. The readers index the first 4 or 8
  bytes; their callers below check the length first, as Go would panic.
\<close>
definition PutUint32 :: "ByteOrder \<Rightarrow> 32 word \<Rightarrow> bytes" where
  "PutUint32 bo v = (case bo of
       BigEndian \<Rightarrow>
         [ucast (drop_bit 24 v), ucast (drop_bit 16 v), ucast (drop_bit 8 v), ucast v]
     | LittleEndian \<Rightarrow>
         [ucast v, ucast (drop_bit 8 v), ucast (drop_bit 16 v), ucast (drop_bit 24 v)])"

definition Uint32 :: "ByteOrder \<Rightarrow> bytes \<Rightarrow> 32 word" where
  "Uint32 bo b = (case bo of
       BigEndian \<Rightarrow>
         ucast (b ! 3) OR push_bit 8 (ucast (b ! 2)) OR push_bit 16 (ucast (b ! 1))
           OR push_bit 24 (ucast (b ! 0))
     | LittleEndian \<Rightarrow>
         ucast (b ! 0) OR push_bit 8 (ucast (b ! 1)) OR push_bit 16 (ucast (b ! 2))
           OR push_bit 24 (ucast (b ! 3)))"

definition PutUint64 :: "ByteOrder \<Rightarrow> 64 word \<Rightarrow> bytes" where
  "PutUint64 bo v = (case bo of
       BigEndian \<Rightarrow>
         [ucast (drop_bit 56 v), ucast (drop_bit 48 v), ucast (drop_bit 40 v),
          ucast (drop_bit 32 v), ucast (drop_bit 24 v), ucast (drop_bit 16 v),
          ucast (drop_bit 8 v), ucast v]
     | LittleEndian \<Rightarrow>
         [ucast v, ucast (drop_bit 8 v), ucast (drop_bit 16 v), ucast (drop_bit 24 v),
          ucast (drop_bit 32 v), ucast (drop_bit 40 v), ucast (drop_bit 48 v),
          ucast (drop_bit 56 v)])"

definition Uint64 :: "ByteOrder \<Rightarrow> bytes \<Rightarrow> 64 word" where
  "Uint64 bo b = (case bo of
       BigEndian \<Rightarrow>
         ucast (b ! 7) OR push_bit 8 (ucast (b ! 6)) OR push_bit 16 (ucast (b ! 5))
           OR push_bit 24 (ucast (b ! 4)) OR push_bit 32 (ucast (b ! 3))
           OR push_bit 40 (ucast (b ! 2)) OR push_bit 48 (ucast (b ! 1))
           OR push_bit 56 (ucast (b ! 0))
     | LittleEndian \<Rightarrow>
         ucast (b ! 0) OR push_bit 8 (ucast (b ! 1)) OR push_bit 16 (ucast (b ! 2))
           OR push_bit 24 (ucast (b ! 3)) OR push_bit 32 (ucast (b ! 4))
           OR push_bit 40 (ucast (b ! 5)) OR push_bit 48 (ucast (b ! 6))
           OR push_bit 56 (ucast (b ! 7)))"

text \<open>
  Modelled from the spec: \<^verbatim>\<open>encoding.EncodeTime\<close>, which is not among the sources. Spec 3
  and 6: the frame starts with \<^verbatim>\<open>enc64(ts)\<close>, the timestamp, an instant with nanosecond
  precision, as an unsigned 64-bit value in the byte order of \<^verbatim>\<open>encoding.Binary\<close>: the
  \<^verbatim>\<open>UnixNano\<close> of the instant, converted to \<^verbatim>\<open>uint64\<close>. The Go function fills the
  8-byte buffer it is given; the model returns the filled buffer.
\<close>
definition EncodeTime :: "ByteOrder \<Rightarrow> Time \<Rightarrow> bytes" where
  "EncodeTime bo ts = PutUint64 bo (word_of_int (UnixNano ts))"

text \<open>
  Modelled from the spec: \<^verbatim>\<open>encoding.TimeFromBytes\<close>, which is not among the sources.
  Spec 6: it decodes what \<^verbatim>\<open>EncodeTime\<close> wrote: the instant whose count of nanoseconds
  since the epoch is the 64-bit value read as an \<^verbatim>\<open>int64\<close>.
\<close>
definition TimeFromBytes :: "ByteOrder \<Rightarrow> bytes \<Rightarrow> Time" where
  "TimeFromBytes bo b = sint (Uint64 bo b)"

text \<open>
  Modelled from the spec: \<^verbatim>\<open>encoding.WriteInt32\<close>, which is not among the sources. Spec 3
  and 6: \<^verbatim>\<open>enc32(len)\<close>, a length as a 32-bit value in the byte order of
  \<^verbatim>\<open>encoding.Binary\<close>. A Go \<^verbatim>\<open>int\<close> has 64 bits, the prefix has 32: the conversion
  keeps the low 32 bits.
\<close>
definition WriteInt32 :: "ByteOrder \<Rightarrow> nat \<Rightarrow> bytes" where
  "WriteInt32 bo i = PutUint32 bo (word_of_nat i)"

text \<open>
  Modelled from the spec: \<^verbatim>\<open>encoding.Read\<close>, which is not among the sources. It splits
  off the first \<^verbatim>\<open>l\<close> bytes; slicing beyond the end of the data is a Go run-time panic,
  here \<open>None\<close> (spec 7, DecodeCorruption).
\<close>
definition Read :: "bytes \<Rightarrow> nat \<Rightarrow> (bytes \<times> bytes) option" where
  "Read b l = (if l \<le> length b then Some (take l b, drop l b) else None)"

text \<open>
  Modelled from the spec: \<^verbatim>\<open>encoding.ReadInt32\<close>, which is not among the sources. It
  reads a 32-bit length prefix and returns it with the rest of the data; on fewer than four
  bytes the Go code panics.
\<close>
definition ReadInt32 :: "ByteOrder \<Rightarrow> bytes \<Rightarrow> (nat \<times> bytes) option" where
  "ReadInt32 bo b =
     (if Width32bits \<le> length b then Some (unat (Uint32 bo b), drop Width32bits b)
      else None)"

subsection \<open>The table and its collaborators\<close>

text \<open>
  The struct literal \<^verbatim>\<open>&insert{key, tsparams, dims, offset, source}\<close> handed to the row
  store. A Go slice may be nil, which is not the same as empty: \<open>None\<close> is nil.
\<close>
record insert_item =
  ins_key :: "bytes option"
  ins_tsparams :: "bytes option"
  ins_dims :: "bytes option"
  ins_offset :: WalOffset
  ins_source :: int

text \<open>
  Modelled from the spec: the counters of \<^verbatim>\<open>t.stats\<close> that insert.go updates; the
  declaration of the struct is not among the sources. Spec 6: they are uint counters. A Go
  \<^verbatim>\<open>uint\<close> has 64 bits on the platforms of the database, and \<^verbatim>\<open>++\<close> wraps around.
\<close>
record TableStats =
  FilteredPoints :: "64 word"
  InsertedPoints :: "64 word"
  QueuedPoints :: "64 word"

text \<open>
  The state of a table that insert.go reads and writes: the result of \<^verbatim>\<open>getWhere()\<close>
  (nil when the table has no WHERE clause), the group-by list, the clock of the database,
  the inserts handed to \<^verbatim>\<open>rowStore.insert\<close> in the order of the calls, and the stats.
\<close>
record table =
  getWhere :: "Expr option"
  TableGroupBy :: "GroupBy list"
  clock :: Time
  rowStore :: "insert_item list"
  stats :: TableStats

text \<open>
  What the table side of insert.go calls outside itself, taken as parameters:
  \<^verbatim>\<open>t.truncateBefore()\<close>, \<^verbatim>\<open>db.inPartition\<close> with the table's partition keys and the
  database's partition (the hasher \<^verbatim>\<open>h\<close> is its working state),
  \<^verbatim>\<open>bytemap.FromSortedKeysAndValues\<close> and \<^verbatim>\<open>encoding.NewTSParams\<close>. The last two are
  called by \<^verbatim>\<open>doInsert\<close> after it has moved the clock, so that a panic in them is kept
  apart from a result. The byte order \<^verbatim>\<open>encoding.Binary\<close> is the first argument of every
  function that encodes or decodes.
\<close>
record collab =
  truncateBefore :: "table \<Rightarrow> Time"
  inPartition :: "table \<Rightarrow> bytes \<Rightarrow> bool"
  FromSortedKeysAndValues :: "string list \<Rightarrow> Value list \<Rightarrow> bytes option outcome"
  NewTSParams :: "Time \<Rightarrow> bytes \<Rightarrow> bytes option outcome"

text \<open>
  Modelled from the spec: \<^verbatim>\<open>db.clock.Advance\<close>, which is not among the sources. Spec 4.7:
  the clock advances to the later of its value and \<^verbatim>\<open>ts\<close>.
\<close>
definition Advance :: "Time \<Rightarrow> Time \<Rightarrow> Time" where
  "Advance c ts = (if Before c ts then ts else c)"

subsection \<open>doInsert, skip, recordQueued\<close>

text \<open>
  The loop of \<^verbatim>\<open>doInsert\<close> over \<^verbatim>\<open>t.GroupBy\<close>: the names and values of the group-by
  expressions whose value on \<^verbatim>\<open>dims\<close> is not nil, in the order of the list, or the panic
  of an expression.
\<close>
fun reslice :: "GroupBy list \<Rightarrow> bytes \<Rightarrow> (string list \<times> Value list) outcome" where
  "reslice [] d = Returned ([], [])"
| "reslice (g # gs) d =
     (case Expr g d of
        Panicked \<Rightarrow> Panicked
      | Returned val \<Rightarrow>
          (case reslice gs d of
             Panicked \<Rightarrow> Panicked
           | Returned (names, vals) \<Rightarrow>
               Returned (if val \<noteq> VNil then (Name g # names, val # vals)
                         else (names, vals))))"

text \<open>
  \<^verbatim>\<open>doInsert\<close>: what it returns, or that it panics, and the table at that point. The
  type assertion \<^verbatim>\<open>ok.(bool)\<close> panics on a WHERE result that is not a bool, before
  anything is written (a panic inside \<^verbatim>\<open>where.Eval\<close> ends the same way). A panic of a
  group-by expression, of \<^verbatim>\<open>FromSortedKeysAndValues\<close> or of \<^verbatim>\<open>NewTSParams\<close> comes after
  \<^verbatim>\<open>clock.Advance\<close>: the clock has moved, no insert has reached the row store and
  InsertedPoints is as before. \<^verbatim>\<open>rowStore.insert\<close> is taken to accept every insert, here
  as in \<^verbatim>\<open>skip\<close>; \<^verbatim>\<open>capMemorySize\<close> and the trace log do not touch the state modelled
  here.
\<close>
definition doInsert ::
  "collab \<Rightarrow> table \<Rightarrow> Time \<Rightarrow> bytes \<Rightarrow> bytes \<Rightarrow> WalOffset \<Rightarrow> int \<Rightarrow> bool outcome \<times> table"
where
  "doInsert c t ts ds vs off src =
     (let ok = (case getWhere t of None \<Rightarrow> VBool True | Some w \<Rightarrow> w ds)
      in case ok of
           VBool False \<Rightarrow>
             (Returned False,
              t\<lparr>stats := (stats t)\<lparr>FilteredPoints := FilteredPoints (stats t) + 1\<rparr>\<rparr>)
         | VBool True \<Rightarrow>
             (let t1 = t\<lparr>clock := Advance (clock t) ts\<rparr>
              in case (if length (TableGroupBy t1) = 0 then Returned (Some ds)
                       else (case reslice (TableGroupBy t1) ds of
                               Panicked \<Rightarrow> Panicked
                             | Returned (names, vals) \<Rightarrow>
                                 FromSortedKeysAndValues c names vals)) of
                   Panicked \<Rightarrow> (Panicked, t1)
                 | Returned k \<Rightarrow>
                     (case NewTSParams c ts vs of
                        Panicked \<Rightarrow> (Panicked, t1)
                      | Returned tsp \<Rightarrow>
                          (let t2 = t1\<lparr>rowStore := rowStore t1 @
                                 [\<lparr>ins_key = k, ins_tsparams = tsp, ins_dims = Some ds,
                                   ins_offset = off, ins_source = src\<rparr>]\<rparr>
                           in (Returned True,
                               t2\<lparr>stats := (stats t2)
                                    \<lparr>InsertedPoints := InsertedPoints (stats t2) + 1\<rparr>\<rparr>))))
         | _ \<Rightarrow> (Panicked, t))"

text \<open>\<^verbatim>\<open>skip\<close>: an insert with nil key, tsparams and dims goes to the row store.\<close>
definition skip :: "table \<Rightarrow> WalOffset \<Rightarrow> int \<Rightarrow> table" where
  "skip t off src =
     t\<lparr>rowStore := rowStore t @
       [\<lparr>ins_key = None, ins_tsparams = None, ins_dims = None,
         ins_offset = off, ins_source = src\<rparr>]\<rparr>"

definition recordQueued :: "table \<Rightarrow> table" where
  "recordQueued t = t\<lparr>stats := (stats t)\<lparr>QueuedPoints := QueuedPoints (stats t) + 1\<rparr>\<rparr>"

subsection \<open>table.insert: decoding a frame\<close>

text \<open>
  The deferred \<^verbatim>\<open>recover()\<close> of \<^verbatim>\<open>insert\<close>: a panic is logged and the function returns
  the zero value of its result type, \<^verbatim>\<open>false\<close>; what was written before the panic stays.
\<close>
definition recovered :: "bool outcome \<times> table \<Rightarrow> bool \<times> table" where
  "recovered r = (case r of (Panicked, t) \<Rightarrow> (False, t) | (Returned b, t) \<Rightarrow> (b, t))"

text \<open>
  \<^verbatim>\<open>table.insert\<close>. The copies \<^verbatim>\<open>dimsBM\<close> and \<^verbatim>\<open>valsBM\<close> hold the bytes of \<^verbatim>\<open>dims\<close>
  and \<^verbatim>\<open>vals\<close>; in a model without sharing they are these lists.
\<close>
definition table_insert ::
  "ByteOrder \<Rightarrow> collab \<Rightarrow> table \<Rightarrow> bytes \<Rightarrow> bool \<Rightarrow> WalOffset \<Rightarrow> int \<Rightarrow> bool \<times> table"
where
  "table_insert bo c t data isFollower off src = recovered
     (case Read data Width64bits of
        None \<Rightarrow> (Panicked, t)
      | Some (tsd, remain) \<Rightarrow>
          (let ts = TimeFromBytes bo tsd
           in if Before ts (truncateBefore c t) then (Returned False, t)
              else (case ReadInt32 bo remain of
                 None \<Rightarrow> (Panicked, t)
               | Some (dimsLen, remain1) \<Rightarrow>
                   (case Read remain1 dimsLen of
                      None \<Rightarrow> (Panicked, t)
                    | Some (ds, remain2) \<Rightarrow>
                        if isFollower \<and> \<not> inPartition c t ds then (Returned False, t)
                        else (case ReadInt32 bo remain2 of
                           None \<Rightarrow> (Panicked, t)
                         | Some (valsLen, remain3) \<Rightarrow>
                             (case Read remain3 valsLen of
                                None \<Rightarrow> (Panicked, t)
                              | Some (vs, _) \<Rightarrow>
                                  (let dimsBM = ds; valsBM = vs
                                   in doInsert c t ts dimsBM valsBM off src)))))))"

subsection \<open>processInserts: the worker\<close>

record walRead =
  data :: "bytes option"
  roffset :: WalOffset
  rsource :: int

text \<open>The local counters of \<^verbatim>\<open>processInserts\<close>.\<close>
record worker =
  inserted :: int
  skipped :: int
  bytesRead :: int

text \<open>
  One turn of the loop of \<^verbatim>\<open>processInserts\<close> on a received item. Whether a minute of
  wall time has passed since \<^verbatim>\<open>start\<close> is an input of the turn.
\<close>
definition processRead ::
  "ByteOrder \<Rightarrow> collab \<Rightarrow> bool \<Rightarrow> bool \<Rightarrow> worker \<times> table \<Rightarrow> walRead \<Rightarrow> worker \<times> table"
where
  "processRead bo c isFollower minutePassed st rd =
     (case st of (w, t) \<Rightarrow>
        (case data rd of
           None \<Rightarrow> (w, t)
         | Some d \<Rightarrow>
             (let w1 = w\<lparr>bytesRead := bytesRead w + int (length d)\<rparr>;
                  (w2, t2) =
                    (case table_insert bo c t d isFollower (roffset rd) (rsource rd) of
                       (True, t') \<Rightarrow> (w1\<lparr>inserted := inserted w1 + 1\<rparr>, t')
                     | (False, t') \<Rightarrow>
                         (w1\<lparr>skipped := skipped w1 + 1\<rparr>, skip t' (roffset rd) (rsource rd)))
              in if minutePassed
                 then (w2\<lparr>inserted := 0, skipped := 0, bytesRead := 0\<rparr>, t2)
                 else (w2, t2))))"

text \<open>The loop, on the items received before \<^verbatim>\<open>stop\<close>, each with its clock reading.\<close>
fun processInserts ::
  "ByteOrder \<Rightarrow> collab \<Rightarrow> bool \<Rightarrow> worker \<times> table \<Rightarrow> (walRead \<times> bool) list \<Rightarrow> worker \<times> table"
where
  "processInserts bo c isFollower st [] = st"
| "processInserts bo c isFollower st ((rd, minutePassed) # rest) =
     processInserts bo c isFollower (processRead bo c isFollower minutePassed st rd) rest"

subsection \<open>The database side: InsertRaw and doInsertRaw\<close>

text \<open>
  The database as \<^verbatim>\<open>InsertRaw\<close> sees it: whether \<^verbatim>\<open>db.opts.Follow\<close> is set, and the map
  \<^verbatim>\<open>db.streams\<close> from stream names to WALs. The map holds pointers in Go; here it holds
  the state of each WAL, and a write replaces it. A missing key and a nil entry are both
  \<open>None\<close>.
\<close>
record 'w DB =
  optsFollow :: bool
  streams :: "string \<Rightarrow> 'w option"

text \<open>
  What the database side calls outside itself, taken as parameters: \<^verbatim>\<open>strings.ToLower\<close>
  and \<^verbatim>\<open>strings.TrimSpace\<close>; \<^verbatim>\<open>bytemap.New\<close> on a Go map; \<^verbatim>\<open>ByteMap.IterateValues\<close>,
  as the keys and values it hands to its callback, in its order;
  \<^verbatim>\<open>bytemap.Build(..., nil, true)\<close>, as a function of the keys and values its callback
  includes, in order; the conversion \<^verbatim>\<open>float64(v)\<close> of an int; and \<^verbatim>\<open>wal.WAL.Write\<close>, as
  a function of the state of the WAL and the buffers written.
\<close>
record 'w dbcollab =
  ToLower :: "string \<Rightarrow> string"
  TrimSpace :: "string \<Rightarrow> string"
  New :: "(string \<Rightarrow> Value option) \<Rightarrow> bytes"
  IterateValues :: "bytes \<Rightarrow> (string \<times> Value) list"
  Build :: "(string \<times> float64) list \<Rightarrow> bytes"
  toFloat64 :: "int \<Rightarrow> float64"
  Write :: "'w \<Rightarrow> bytes list \<Rightarrow> error option \<times> 'w"

text \<open>
  \<^verbatim>\<open>doInsertRaw\<close>: the five buffers handed to \<^verbatim>\<open>w.Write\<close>. The error of the write, if
  any, is logged and returned.
\<close>
definition doInsertRaw ::
  "ByteOrder \<Rightarrow> 'w dbcollab \<Rightarrow> 'w \<Rightarrow> Time \<Rightarrow> bytes \<Rightarrow> bytes \<Rightarrow> error option \<times> 'w"
where
  "doInsertRaw bo x w ts ds vs =
     (let tsd = EncodeTime bo ts;
          dimsLen = WriteInt32 bo (length ds);
          valsLen = WriteInt32 bo (length vs)
      in Write x w [tsd, dimsLen, ds, valsLen, vs])"

text \<open>
  The variables that the callbacks of \<^verbatim>\<open>InsertRaw\<close> share: the WAL, \<^verbatim>\<open>lastErr\<close>,
  \<^verbatim>\<open>hasMainValue\<close> and the keys and values included in \<^verbatim>\<open>mainVals\<close> so far.
\<close>
record 'w rawState =
  wal :: 'w
  lastErr :: "error option"
  hasMainValue :: bool
  mainIncluded :: "(string \<times> float64) list"

text \<open>The closure \<^verbatim>\<open>include\<close> of \<^verbatim>\<open>InsertRaw\<close>, which wraps the \<^verbatim>\<open>_include\<close> of Build.\<close>
definition includeMain :: "'w rawState \<Rightarrow> string \<Rightarrow> float64 \<Rightarrow> 'w rawState" where
  "includeMain st k v = st\<lparr>hasMainValue := True, mainIncluded := mainIncluded st @ [(k, v)]\<rparr>"

text \<open>
  The loops \<^verbatim>\<open>for i := 1; i < len(v); i++\<close>: one \<^verbatim>\<open>doInsertRaw\<close> for each further
  element, given here as the list \<^verbatim>\<open>v[1:]\<close> (converted to float64 for \<^verbatim>\<open>[]int\<close>).
\<close>
fun subInserts ::
  "ByteOrder \<Rightarrow> 'w dbcollab \<Rightarrow> Time \<Rightarrow> bytes \<Rightarrow> string \<Rightarrow> float64 list \<Rightarrow> 'w rawState \<Rightarrow> 'w rawState"
where
  "subInserts bo x ts ds k [] st = st"
| "subInserts bo x ts ds k (a # rest) st =
     (let subVals = Build x [(k, a)];
          (subErr, w') = doInsertRaw bo x (wal st) ts ds subVals;
          st1 = st\<lparr>wal := w'\<rparr>
      in subInserts bo x ts ds k rest
           (if subErr \<noteq> None then st1\<lparr>lastErr := subErr\<rparr> else st1))"

text \<open>
  The callback given to \<^verbatim>\<open>IterateValues\<close>, on one key and value. \<open>None\<close> is the run-time
  panic of \<^verbatim>\<open>v[0]\<close> on an empty slice; it comes before the callback has changed anything.
\<close>
definition visit ::
  "ByteOrder \<Rightarrow> 'w dbcollab \<Rightarrow> Time \<Rightarrow> bytes \<Rightarrow> 'w rawState \<Rightarrow> string \<times> Value \<Rightarrow> 'w rawState option"
where
  "visit bo x ts ds st kv =
     (case kv of (k, val) \<Rightarrow>
        (case val of
           VFloat64 v \<Rightarrow> Some (includeMain st k v)
         | VInt v \<Rightarrow> Some (includeMain st k (toFloat64 x v))
         | VFloat64s v \<Rightarrow>
             (case v of
                [] \<Rightarrow> None
              | v0 # rest \<Rightarrow> Some (subInserts bo x ts ds k rest (includeMain st k v0)))
         | VInts v \<Rightarrow>
             (case v of
                [] \<Rightarrow> None
              | v0 # rest \<Rightarrow>
                  Some (subInserts bo x ts ds k (map (toFloat64 x) rest)
                          (includeMain st k (toFloat64 x v0))))
         | _ \<Rightarrow> Some st))"

text \<open>
  \<^verbatim>\<open>IterateValues\<close> with that callback, which always asks to go on: the iteration ends
  at the last value or at a panic. The result is the state reached and whether it panicked.
\<close>
fun visitAll ::
  "ByteOrder \<Rightarrow> 'w dbcollab \<Rightarrow> Time \<Rightarrow> bytes \<Rightarrow> (string \<times> Value) list \<Rightarrow> 'w rawState \<Rightarrow> 'w rawState \<times> bool"
where
  "visitAll bo x ts ds [] st = (st, False)"
| "visitAll bo x ts ds (kv # rest) st =
     (case visit bo x ts ds st kv of
        None \<Rightarrow> (st, True)
      | Some st' \<Rightarrow> visitAll bo x ts ds rest st')"

text \<open>
  \<^verbatim>\<open>InsertRaw\<close>: what it returns, or that it panics (it has no \<^verbatim>\<open>recover\<close>), and the
  database afterwards.
\<close>
definition InsertRaw ::
  "ByteOrder \<Rightarrow> 'w dbcollab \<Rightarrow> 'w DB \<Rightarrow> string \<Rightarrow> Time \<Rightarrow> bytes \<Rightarrow> bytes
     \<Rightarrow> error option outcome \<times> 'w DB"
where
  "InsertRaw bo x db stream ts ds vs =
     (if optsFollow db then (Returned (Some InsertOnFollower), db)
      else
        (let stream' = TrimSpace x (ToLower x stream)
         in case streams db stream' of
              None \<Rightarrow> (Returned (Some (UnknownStream stream')), db)
            | Some w \<Rightarrow>
                (case visitAll bo x ts ds (IterateValues x vs)
                        \<lparr>wal = w, lastErr = None, hasMainValue = False, mainIncluded = []\<rparr> of
                   (st, True) \<Rightarrow> (Panicked, db\<lparr>streams := (streams db)(stream' \<mapsto> wal st)\<rparr>)
                 | (st, False) \<Rightarrow>
                     (let mainVals = Build x (mainIncluded st)
                      in if hasMainValue st
                         then (case doInsertRaw bo x (wal st) ts ds mainVals of
                                 (insertErr, w') \<Rightarrow>
                                   (Returned (if insertErr \<noteq> None then insertErr else lastErr st),
                                    db\<lparr>streams := (streams db)(stream' \<mapsto> w')\<rparr>))
                         else (Returned (lastErr st),
                               db\<lparr>streams := (streams db)(stream' \<mapsto> wal st)\<rparr>)))))"

text \<open>\<^verbatim>\<open>Insert\<close>: \<^verbatim>\<open>InsertRaw\<close> on the ByteMaps of the two maps.\<close>
definition Insert ::
  "ByteOrder \<Rightarrow> 'w dbcollab \<Rightarrow> 'w DB \<Rightarrow> string \<Rightarrow> Time \<Rightarrow> (string \<Rightarrow> Value option)
     \<Rightarrow> (string \<Rightarrow> Value option) \<Rightarrow> error option outcome \<times> 'w DB"
where
  "Insert bo x db stream ts dimsMap valsMap =
     InsertRaw bo x db stream ts (New x dimsMap) (New x valsMap)"

subsection \<open>Vector expansion as the specification words it\<close>

text \<open>
  Spec 4.5 in its own words, to be compared with \<^verbatim>\<open>InsertRaw\<close>: the main row holds every
  float64 as it is, every int promoted to float64, and the first element of every vector.
\<close>
fun mainRow :: "'w dbcollab \<Rightarrow> (string \<times> Value) list \<Rightarrow> (string \<times> float64) list" where
  "mainRow x [] = []"
| "mainRow x ((k, VFloat64 v) # kvs) = (k, v) # mainRow x kvs"
| "mainRow x ((k, VInt v) # kvs) = (k, toFloat64 x v) # mainRow x kvs"
| "mainRow x ((k, VFloat64s (v0 # rest)) # kvs) = (k, v0) # mainRow x kvs"
| "mainRow x ((k, VInts (v0 # rest)) # kvs) = (k, toFloat64 x v0) # mainRow x kvs"
| "mainRow x (kv # kvs) = mainRow x kvs"

text \<open>
  Each further element of a vector is a row of its own that holds only that field, in the
  order of the values and of the elements.
\<close>
fun subRows :: "'w dbcollab \<Rightarrow> (string \<times> Value) list \<Rightarrow> (string \<times> float64) list list" where
  "subRows x [] = []"
| "subRows x ((k, VFloat64s (v0 # rest)) # kvs) = map (\<lambda>a. [(k, a)]) rest @ subRows x kvs"
| "subRows x ((k, VInts (v0 # rest)) # kvs) =
     map (\<lambda>a. [(k, toFloat64 x a)]) rest @ subRows x kvs"
| "subRows x (kv # kvs) = subRows x kvs"

text \<open>The rows of one call: the sub rows, then the main row if it holds a field.\<close>
definition expandedRows ::
  "'w dbcollab \<Rightarrow> (string \<times> Value) list \<Rightarrow> (string \<times> float64) list list"
where
  "expandedRows x kvs = subRows x kvs @ (if mainRow x kvs = [] then [] else [mainRow x kvs])"

text \<open>
  Writing rows one after the other with \<^verbatim>\<open>doInsertRaw\<close>, each with the same timestamp and
  dims, keeping the last error.
\<close>
fun writeRows ::
  "ByteOrder \<Rightarrow> 'w dbcollab \<Rightarrow> Time \<Rightarrow> bytes \<Rightarrow> (string \<times> float64) list list
     \<Rightarrow> 'w \<times> error option \<Rightarrow> 'w \<times> error option"
where
  "writeRows bo x ts ds [] st = st"
| "writeRows bo x ts ds (row # rows) (w, e) =
     (case doInsertRaw bo x w ts ds (Build x row) of
        (e', w') \<Rightarrow> writeRows bo x ts ds rows (w', if e' \<noteq> None then e' else e))"

text \<open>A value on which \<^verbatim>\<open>v[0]\<close> is out of range.\<close>
fun emptyVector :: "string \<times> Value \<Rightarrow> bool" where
  "emptyVector (k, VFloat64s []) = True"
| "emptyVector (k, VInts []) = True"
| "emptyVector kv = False"

subsection \<open>The operations on a table, in sequence\<close>

text \<open>
  The functions of insert.go that change a table, as operations to run one after the
  other.
\<close>
datatype tableOp =
    OpDoInsert Time bytes bytes WalOffset int
  | OpInsert bytes bool WalOffset int
  | OpSkip WalOffset int
  | OpRecordQueued
  | OpProcessRead bool bool walRead

text \<open>
  One operation: the table afterwards, and 1 when a call of \<^verbatim>\<open>doInsert\<close> returned true
  in it, else 0. A turn
  of the worker is taken with fresh local counters, which do not bear on the table; in it
  \<^verbatim>\<open>doInsert\<close> has returned true exactly when \<^verbatim>\<open>insert\<close> has.
\<close>
fun applyOp :: "ByteOrder \<Rightarrow> collab \<Rightarrow> table \<Rightarrow> tableOp \<Rightarrow> table \<times> nat" where
  "applyOp bo c t (OpDoInsert ts ds vs off src) =
     (case doInsert c t ts ds vs off src of
        (r, t') \<Rightarrow> (t', if r = Returned True then 1 else 0))"
| "applyOp bo c t (OpInsert d isFollower off src) =
     (case table_insert bo c t d isFollower off src of
        (b, t') \<Rightarrow> (t', if b then 1 else 0))"
| "applyOp bo c t (OpSkip off src) = (skip t off src, 0)"
| "applyOp bo c t OpRecordQueued = (recordQueued t, 0)"
| "applyOp bo c t (OpProcessRead isFollower minutePassed rd) =
     (snd (processRead bo c isFollower minutePassed
             (\<lparr>inserted = 0, skipped = 0, bytesRead = 0\<rparr>, t) rd),
      case data rd of
        None \<Rightarrow> 0
      | Some d \<Rightarrow>
          if fst (table_insert bo c t d isFollower (roffset rd) (rsource rd)) then 1 else 0)"

fun applyOps :: "ByteOrder \<Rightarrow> collab \<Rightarrow> table \<Rightarrow> tableOp list \<Rightarrow> table \<times> nat" where
  "applyOps bo c t [] = (t, 0)"
| "applyOps bo c t (op # ops) =
     (case applyOp bo c t op of
        (t1, n) \<Rightarrow> (case applyOps bo c t1 ops of (t2, m) \<Rightarrow> (t2, n + m)))"

text \<open>
  A WAL kept in memory, for running the model: every write succeeds and appends one frame,
  the concatenation of its buffers, which is what the reader of the WAL gets back.
\<close>
definition memWrite :: "bytes list \<Rightarrow> bytes list \<Rightarrow> error option \<times> bytes list" where
  "memWrite w bufs = (None, w @ [concat bufs])"

section \<open>Query planner (planner/planner.go)\<close>

subsection \<open>Parsed queries and pipelines\<close>

text \<open>\<^verbatim>\<open>core.Field\<close> and \<^verbatim>\<open>core.OrderBy\<close> pass through the planner unread.\<close>
type_synonym Field = string
type_synonym OrderBy = string

text \<open>What \<^verbatim>\<open>Plan\<close> reads of \<^verbatim>\<open>query.FromSubQuery\<close>.\<close>
record SubQuery =
  SQL :: string
  SubQueryFields :: "Field list"

text \<open>What \<^verbatim>\<open>Plan\<close> reads of a parsed \<^verbatim>\<open>sql.Query\<close>; \<open>None\<close> is a nil pointer.\<close>
record Query =
  From :: string
  FromSubQuery :: "SubQuery option"
  Fields :: "Field list"
  GroupBy :: "GroupBy list"
  GroupByAll :: bool
  HasSpecificFields :: bool
  Where :: "Expr option"
  WhereSQL :: string
  AsOf :: Time
  Until :: Time
  AsOfOffset :: Duration
  UntilOffset :: Duration
  Resolution :: Duration
  OrderBy :: "OrderBy list"
  Offset :: int
  Limit :: int

text \<open>A \<^verbatim>\<open>context.Context\<close> is opaque to the planner.\<close>
type_synonym Context = nat

text \<open>
  What the closure \<^verbatim>\<open>Include\<close> built by \<^verbatim>\<open>Plan\<close> captures, apart from its flag
  \<^verbatim>\<open>hasRunSubqueries\<close>: the closure \<^verbatim>\<open>runSubQueries\<close> and \<^verbatim>\<open>query.Where\<close>.
\<close>
record IncludeClosure =
  runSubQueries :: "Context \<Rightarrow> error option"
  queryWhere :: Expr

text \<open>The row source that \<^verbatim>\<open>opts.GetTable\<close> returns is opaque to the planner.\<close>
type_synonym TableRef = string

text \<open>
  The operators of package core that \<^verbatim>\<open>Plan\<close> wires together, each with the source it
  is connected to: \<^verbatim>\<open>core.RowSource\<close> and \<^verbatim>\<open>core.FlatRowSource\<close>.
\<close>
datatype RowSource =
    Table TableRef
  | core_Unflatten "Field list" FlatRowSource
  | core_Filter IncludeClosure string RowSource
  | core_Group "GroupBy list" "Field list" Duration Time Time RowSource
and FlatRowSource =
    core_Flatten RowSource
  | core_Sort "OrderBy list" FlatRowSource
  | core_Offset int FlatRowSource
  | core_Limit int FlatRowSource

text \<open>
  \<^verbatim>\<open>Opts\<close>. \<^verbatim>\<open>GetTable\<close> is taken to return a row source for every name (spec 6).
  \<^verbatim>\<open>FieldSource\<close> is only handed to the parser and is part of \<open>Parse\<close> below.
\<close>
record Opts =
  GetTable :: "string \<Rightarrow> TableRef"
  Now :: "string \<Rightarrow> Time"
  Distributed :: bool
  PartitionKeys :: "string list"

text \<open>
  What planner.go calls outside itself, taken as parameters: \<^verbatim>\<open>sql.Parse\<close> (with
  \<^verbatim>\<open>opts.FieldSource\<close>), \<^verbatim>\<open>planSubQueries\<close> (in another file of the package), and the
  methods \<^verbatim>\<open>GetAsOf\<close>, \<^verbatim>\<open>GetUntil\<close> and \<^verbatim>\<open>GetResolution\<close> of a row source.
\<close>
record planDeps =
  Parse :: "string \<Rightarrow> error + Query"
  planSubQueries :: "Query \<Rightarrow> Opts \<Rightarrow> error + (Context \<Rightarrow> error option)"
  GetAsOf :: "RowSource \<Rightarrow> Time"
  GetUntil :: "RowSource \<Rightarrow> Time"
  GetResolution :: "RowSource \<Rightarrow> Duration"

subsection \<open>Plan\<close>

text \<open>Lines 48 to 54: the relative offsets are resolved against \<^verbatim>\<open>opts.Now\<close>.\<close>
definition resolveOffsets :: "Opts \<Rightarrow> Query \<Rightarrow> Query" where
  "resolveOffsets opts query =
     (let now = Now opts (From query);
          query1 = (if AsOfOffset query \<noteq> 0
                    then query\<lparr>AsOf := Add now (AsOfOffset query)\<rparr> else query)
      in if UntilOffset query1 \<noteq> 0
         then query1\<lparr>Until := Add now (UntilOffset query1)\<rparr> else query1)"

text \<open>Lines 56 to 58.\<close>
definition asOfChanged :: "planDeps \<Rightarrow> Query \<Rightarrow> RowSource \<Rightarrow> bool" where
  "asOfChanged d query source =
     (\<not> IsZero (AsOf query) \<and> UnixNano (AsOf query) \<noteq> UnixNano (GetAsOf d source))"

definition untilChanged :: "planDeps \<Rightarrow> Query \<Rightarrow> RowSource \<Rightarrow> bool" where
  "untilChanged d query source =
     (\<not> IsZero (Until query) \<and> UnixNano (Until query) \<noteq> UnixNano (GetUntil d source))"

definition resolutionChanged :: "planDeps \<Rightarrow> Query \<Rightarrow> RowSource \<Rightarrow> bool" where
  "resolutionChanged d query source =
     (Resolution query \<noteq> 0 \<and> Resolution query \<noteq> GetResolution d source)"

text \<open>Lines 60 to 84: the filter, when the query has a WHERE clause.\<close>
definition planFilter :: "planDeps \<Rightarrow> Opts \<Rightarrow> Query \<Rightarrow> RowSource \<Rightarrow> error + RowSource" where
  "planFilter d opts query source =
     (case Where query of
        None \<Rightarrow> Inr source
      | Some w \<Rightarrow>
          (case planSubQueries d query opts of
             Inl subQueryPlanErr \<Rightarrow> Inl subQueryPlanErr
           | Inr run \<Rightarrow>
               Inr (core_Filter \<lparr>runSubQueries = run, queryWhere = w\<rparr> (WhereSQL query) source)))"

text \<open>Lines 86 to 97: the group-by, when it is needed.\<close>
definition planGroup :: "bool \<Rightarrow> Query \<Rightarrow> RowSource \<Rightarrow> RowSource" where
  "planGroup changed query source =
     (if changed \<or> \<not> GroupByAll query \<or> HasSpecificFields query
      then core_Group (GroupBy query) (Fields query) (Resolution query) (AsOf query)
             (Until query) source
      else source)"

text \<open>Lines 99 to 121: flatten, then sort, offset and limit.\<close>
definition planFlat :: "Query \<Rightarrow> RowSource \<Rightarrow> FlatRowSource" where
  "planFlat query source =
     (let flat = core_Flatten source;
          flat1 = (if length (OrderBy query) > 0 then core_Sort (OrderBy query) flat else flat);
          flat2 = (if Offset query > 0 then core_Offset (Offset query) flat1 else flat1)
      in if Limit query > 0 then core_Limit (Limit query) flat2 else flat2)"

text \<open>
  The body of \<^verbatim>\<open>Plan\<close> from line 48 on, once the source is chosen. The three flags are
  computed on the source as chosen, before the filter is put in front of it.
\<close>
definition planOn :: "planDeps \<Rightarrow> Opts \<Rightarrow> Query \<Rightarrow> RowSource \<Rightarrow> error + FlatRowSource" where
  "planOn d opts parsed source =
     (let query = resolveOffsets opts parsed;
          changed = (asOfChanged d query source \<or> untilChanged d query source
                       \<or> resolutionChanged d query source)
      in case planFilter d opts query source of
           Inl err \<Rightarrow> Inl err
         | Inr source1 \<Rightarrow> Inr (planFlat query (planGroup changed query source1)))"

text \<open>
  \<^verbatim>\<open>Plan\<close>. It calls itself on the SQL of a FROM sub-query, which the parser is free to
  choose: the result is \<open>None\<close> when that never ends.
\<close>
partial_function (option) Plan ::
  "planDeps \<Rightarrow> Opts \<Rightarrow> string \<Rightarrow> (error + FlatRowSource) option"
where
  "Plan d opts sqlString =
     (case Parse d sqlString of
        Inl err \<Rightarrow> Some (Inl err)
      | Inr query \<Rightarrow>
          (case FromSubQuery query of
             Some sq \<Rightarrow>
               Option.bind (Plan d opts (SQL sq))
                 (\<lambda>r. case r of
                    Inl err \<Rightarrow> Some (Inl err)
                  | Inr subSource \<Rightarrow>
                      Some (planOn d opts query (core_Unflatten (SubQueryFields sq) subSource)))
           | None \<Rightarrow> Some (planOn d opts query (Table (GetTable opts (From query))))))"

subsection \<open>Reading a pipeline\<close>

text \<open>The row source that the Flatten of a planned pipeline is connected to.\<close>
fun flattenSource :: "FlatRowSource \<Rightarrow> RowSource" where
  "flattenSource (core_Flatten source) = source"
| "flattenSource (core_Sort by flat) = flattenSource flat"
| "flattenSource (core_Offset n flat) = flattenSource flat"
| "flattenSource (core_Limit n flat) = flattenSource flat"


text \<open>The table or Unflatten that a row source starts from.\<close>
fun baseSource :: "RowSource \<Rightarrow> RowSource" where
  "baseSource (Table r) = Table r"
| "baseSource (core_Unflatten fs flat) = core_Unflatten fs flat"
| "baseSource (core_Filter f label source) = baseSource source"
| "baseSource (core_Group by fs res asOf until source) = baseSource source"

subsection \<open>The predicate of the filter\<close>

text \<open>
  Lines 77 and 78: \<^verbatim>\<open>result != nil && result.(bool)\<close>. The type assertion panics on a
  result that is neither nil nor a bool.
\<close>
definition evalWhere :: "Expr \<Rightarrow> bytes \<Rightarrow> (bool \<times> error option) outcome" where
  "evalWhere w k =
     (case w k of
        VNil \<Rightarrow> Returned (False, None)
      | VBool b \<Rightarrow> Returned (b, None)
      | _ \<Rightarrow> Panicked)"

text \<open>
  The variable \<^verbatim>\<open>hasRunSubqueries\<close> that the closure shares between its calls, with a
  count of the calls of \<^verbatim>\<open>runSubQueries\<close> made so far.
\<close>
record filterState =
  hasRunSubqueries :: "32 word"
  subQueryRuns :: nat

definition newFilter :: filterState where
  "newFilter = \<lparr>hasRunSubqueries = 0, subQueryRuns = 0\<rparr>"

text \<open>
  The closure \<^verbatim>\<open>Include\<close> (lines 68 to 79), called when no other call is under way. Its
  argument \<^verbatim>\<open>vals\<close> is not used.
\<close>
definition Include ::
  "IncludeClosure \<Rightarrow> filterState \<Rightarrow> Context \<Rightarrow> bytes
     \<Rightarrow> (bool \<times> error option) outcome \<times> filterState"
where
  "Include f st ctx k =
     (if hasRunSubqueries st = 0
      then (let st1 = st\<lparr>hasRunSubqueries := 1\<rparr>;
                err = runSubQueries f ctx;
                st2 = st1\<lparr>subQueryRuns := subQueryRuns st1 + 1\<rparr>
            in if err \<noteq> None \<and> err \<noteq> Some ErrDeadlineExceeded
               then (Returned (False, err), st2)
               else (evalWhere (queryWhere f) k, st2))
      else (evalWhere (queryWhere f) k, st))"

text \<open>Calls one after the other, as one iterator makes them: the results and the state.\<close>
fun IncludeEach ::
  "IncludeClosure \<Rightarrow> filterState \<Rightarrow> (Context \<times> bytes) list
     \<Rightarrow> (bool \<times> error option) outcome list \<times> filterState"
where
  "IncludeEach f st [] = ([], st)"
| "IncludeEach f st ((ctx, k) # rest) =
     (case Include f st ctx k of
        (r, st1) \<Rightarrow> (case IncludeEach f st1 rest of (rs, st2) \<Rightarrow> (r # rs, st2)))"

subsection \<open>The predicate under concurrent callers\<close>

text \<open>
  Where a call of \<^verbatim>\<open>Include\<close> stands: before the compare-and-swap, after winning it and
  before \<^verbatim>\<open>runSubQueries\<close> has returned, before the evaluation of the WHERE expression,
  or returned.
\<close>
datatype callPoint =
    AtCompareAndSwap
  | AtRunSubQueries
  | AtEval
  | Done "(bool \<times> error option) outcome"

datatype event = RanSubQueries nat | Completed nat

text \<open>
  Several callers of one filter: the shared flag, the point each caller has reached, and
  the calls of \<^verbatim>\<open>runSubQueries\<close> and the returns of \<^verbatim>\<open>Include\<close> in the order in which
  they happened.
\<close>
record filterRun =
  flag :: "32 word"
  callers :: "callPoint list"
  events :: "event list"

definition startRun :: "nat \<Rightarrow> filterRun" where
  "startRun n = \<lparr>flag = 0, callers = replicate n AtCompareAndSwap, events = []\<rparr>"

text \<open>
  One atomic step of caller \<open>i\<close>, whose call has the arguments \<open>ctx\<close> and \<open>k\<close>. The
  compare-and-swap is one step; a caller that has returned calls again.
\<close>
definition stepCaller :: "IncludeClosure \<Rightarrow> filterRun \<Rightarrow> nat \<times> Context \<times> bytes \<Rightarrow> filterRun" where
  "stepCaller f s a =
     (case a of (i, ctx, k) \<Rightarrow>
        if i < length (callers s) then
          (case callers s ! i of
             AtCompareAndSwap \<Rightarrow>
               if flag s = 0
               then s\<lparr>flag := 1, callers := (callers s)[i := AtRunSubQueries]\<rparr>
               else s\<lparr>callers := (callers s)[i := AtEval]\<rparr>
           | AtRunSubQueries \<Rightarrow>
               (let err = runSubQueries f ctx
                in if err \<noteq> None \<and> err \<noteq> Some ErrDeadlineExceeded
                   then s\<lparr>callers := (callers s)[i := Done (Returned (False, err))],
                          events := events s @ [RanSubQueries i, Completed i]\<rparr>
                   else s\<lparr>callers := (callers s)[i := AtEval],
                          events := events s @ [RanSubQueries i]\<rparr>)
           | AtEval \<Rightarrow>
               s\<lparr>callers := (callers s)[i := Done (evalWhere (queryWhere f) k)],
                 events := events s @ [Completed i]\<rparr>
           | Done r \<Rightarrow> s\<lparr>callers := (callers s)[i := AtCompareAndSwap]\<rparr>)
        else s)"

definition runCallers ::
  "IncludeClosure \<Rightarrow> filterRun \<Rightarrow> (nat \<times> Context \<times> bytes) list \<Rightarrow> filterRun"
where
  "runCallers f s sched = foldl (stepCaller f) s sched"

fun isRan :: "event \<Rightarrow> bool" where
  "isRan (RanSubQueries i) = True"
| "isRan (Completed i) = False"

definition subQueryRunCount :: "filterRun \<Rightarrow> nat" where
  "subQueryRunCount s = length (filter isRan (events s))"

text \<open>
  How many callers have won the compare-and-swap and not yet finished \<^verbatim>\<open>runSubQueries\<close>,
  and what every run of several callers keeps true: while the flag is 0 nobody has won and
  nothing has run, and the callers in \<^verbatim>\<open>runSubQueries\<close> and the runs made add up to at
  most one.
\<close>
definition atRun :: "filterRun \<Rightarrow> nat" where
  "atRun s = length (filter (\<lambda>p. p = AtRunSubQueries) (callers s))"

definition runInv :: "filterRun \<Rightarrow> bool" where
  "runInv s = ((flag s = 0 \<longrightarrow> atRun s = 0 \<and> subQueryRunCount s = 0) \<and>
               atRun s + subQueryRunCount s \<le> 1)"

section \<open>Concrete settings for running the model\<close>

text \<open>
  A table without WHERE clause and group-by, collaborators that keep nothing older than
  instant 100, a database with one stream whose WAL is kept in memory, and small stand-ins
  for the string and ByteMap libraries.
\<close>

definition demoCollab :: collab where
  "demoCollab = \<lparr>truncateBefore = (\<lambda>t. 100), inPartition = (\<lambda>t d. True),
     FromSortedKeysAndValues = (\<lambda>names vals. Returned (Some [])),
     NewTSParams = (\<lambda>ts vs. Returned (Some vs))\<rparr>"

definition emptyTable :: table where
  "emptyTable = \<lparr>getWhere = None, TableGroupBy = [], clock = 0, rowStore = [],
     stats = \<lparr>FilteredPoints = 0, InsertedPoints = 0, QueuedPoints = 0\<rparr>\<rparr>"

definition asciiLower :: "char \<Rightarrow> char" where
  "asciiLower c = (let n = (of_char c :: nat) in if 65 \<le> n \<and> n \<le> 90 then char_of (n + 32) else c)"

definition asciiSpace :: "char \<Rightarrow> bool" where
  "asciiSpace c = ((of_char c :: nat) = 32 \<or> (9 \<le> (of_char c :: nat) \<and> (of_char c :: nat) \<le> 13))"

definition demoValues :: "bytes \<Rightarrow> (string \<times> Value) list" where
  "demoValues b =
     (if b = [1] then [(''k'', VFloat64s [10, 20, 30]), (''x'', VInt 7)]
      else if b = [2] then [(''x'', VInt 7), (''k'', VInts [])]
      else if b = [3] then [(''a'', VFloat64s [1, 2]), (''b'', VFloat64s []), (''c'', VInt 5)]
      else [])"

definition demoBuild :: "(string \<times> float64) list \<Rightarrow> bytes" where
  "demoBuild kvs = concat (map (\<lambda>(k, v). map (\<lambda>c. of_nat (of_char c)) k @ [ucast v]) kvs)"

definition memCollab :: "(bytes list) dbcollab" where
  "memCollab = \<lparr>ToLower = map asciiLower,
     TrimSpace = (\<lambda>s. rev (dropWhile asciiSpace (rev (dropWhile asciiSpace s)))),
     New = (\<lambda>m. if m ''k'' = None then [] else [1]),
     IterateValues = demoValues, Build = demoBuild, toFloat64 = word_of_int,
     Write = memWrite\<rparr>"

definition memDB :: "(bytes list) DB" where
  "memDB = \<lparr>optsFollow = False, streams = [''events'' \<mapsto> []]\<rparr>"

text \<open>The same database as a follower.\<close>
definition followerDB :: "(bytes list) DB" where
  "followerDB = memDB\<lparr>optsFollow := True\<rparr>"

text \<open>A table whose InsertedPoints is at the largest value of its type.\<close>
definition fullTable :: table where
  "fullTable = emptyTable\<lparr>stats :=
     \<lparr>FilteredPoints = 0, InsertedPoints = 18446744073709551615, QueuedPoints = 0\<rparr>\<rparr>"

text \<open>A table whose WHERE clause keeps the points with non-empty dims, and a run on it.\<close>
definition filteringTable :: table where
  "filteringTable = emptyTable\<lparr>getWhere := Some (\<lambda>d. VBool (d \<noteq> []))\<rparr>"

definition demoOps :: "tableOp list" where
  "demoOps =
     [OpDoInsert 200 [1] [2] [7] 0, OpDoInsert 201 [] [2] [8] 0, OpSkip [8] 0, OpRecordQueued,
      OpInsert [0, 0, 0, 0, 0, 0, 0, 200, 0, 0, 0, 1, 9, 0, 0, 0, 1, 3] False [9] 0,
      OpProcessRead False False
        \<lparr>data = Some [0, 0, 0, 0, 0, 0, 0, 5], roffset = [10], rsource = 0\<rparr>]"

text \<open>
  A parser that knows a few statements, collaborators whose sub-queries always succeed and
  whose sources have no time window or resolution of their own, and options.
\<close>
definition demoQuery :: Query where
  "demoQuery = \<lparr>From = ''t'', FromSubQuery = None, Fields = [], GroupBy = [],
     GroupByAll = True, HasSpecificFields = False, Where = None, WhereSQL = [],
     AsOf = zeroTime, Until = zeroTime, AsOfOffset = 0, UntilOffset = 0, Resolution = 0,
     OrderBy = [], Offset = 0, Limit = 0\<rparr>"

definition demoParse :: "string \<Rightarrow> error + Query" where
  "demoParse sqlString =
     (if sqlString = ''SELECT * FROM t'' then Inr demoQuery
      else if sqlString = ''SELECT SUM(x) AS a FROM t''
        then Inr (demoQuery\<lparr>Fields := [''a''], HasSpecificFields := True\<rparr>)
      else if sqlString = ''SELECT * FROM t WHERE y''
        then Inr (demoQuery\<lparr>Where := Some (\<lambda>k. VBool (k \<noteq> [])), WhereSQL := ''y''\<rparr>)
      else if sqlString = ''SELECT * FROM (SELECT SUM(x) AS a FROM t)''
        then Inr (demoQuery\<lparr>FromSubQuery :=
               Some \<lparr>SQL = ''SELECT SUM(x) AS a FROM t'', SubQueryFields = [''a'']\<rparr>\<rparr>)
      else if sqlString = ''SELECT * FROM (SELEC)''
        then Inr (demoQuery\<lparr>FromSubQuery := Some \<lparr>SQL = ''SELEC'', SubQueryFields = []\<rparr>\<rparr>)
      else Inl (Err ''syntax error''))"

definition demoDeps :: planDeps where
  "demoDeps = \<lparr>Parse = demoParse, planSubQueries = (\<lambda>query opts. Inr (\<lambda>ctx. None)),
     GetAsOf = (\<lambda>source. zeroTime), GetUntil = (\<lambda>source. zeroTime),
     GetResolution = (\<lambda>source. 0)\<rparr>"

definition demoOpts :: Opts where
  "demoOpts = \<lparr>GetTable = (\<lambda>name. name), Now = (\<lambda>name. 1000), Distributed = False,
     PartitionKeys = []\<rparr>"




text \<open>A parser for which every statement is a query from a sub-query with the same SQL.\<close>
definition loopDeps :: planDeps where
  "loopDeps = demoDeps\<lparr>Parse := (\<lambda>sqlString.
     Inr (demoQuery\<lparr>FromSubQuery := Some \<lparr>SQL = sqlString, SubQueryFields = []\<rparr>\<rparr>))\<rparr>"

text \<open>A filter closure whose sub-queries succeed and whose WHERE keeps non-empty keys.\<close>
definition demoClosure :: IncludeClosure where
  "demoClosure = \<lparr>runSubQueries = (\<lambda>ctx. None), queryWhere = (\<lambda>k. VBool (k \<noteq> []))\<rparr>"

text \<open>A filter closure whose sub-queries run into the deadline of context 1 and fail in
  another way in context 2.\<close>
definition slowClosure :: IncludeClosure where
  "slowClosure = \<lparr>runSubQueries = (\<lambda>ctx. if ctx = 1 then Some ErrDeadlineExceeded
       else if ctx = 2 then Some (Err ''table gone'') else None),
     queryWhere = (\<lambda>k. VBool (k \<noteq> []))\<rparr>"

section \<open>Properties of the ingest path\<close>

subsection \<open>The wire encoding\<close>

lemma Uint32_PutUint32: "Uint32 bo (PutUint32 bo v @ rest) = v"
  unfolding Uint32_def PutUint32_def
  apply (cases bo; simp)
   apply (rule bit_word_eqI)
   apply (simp add: bit_simps less_diff_conv2 cong: conj_cong)
   apply (case_tac "bit v n"; simp)
   apply (simp add: not_less [symmetric])
   apply blast
  apply (rule bit_word_eqI)
  apply (simp add: bit_simps less_diff_conv2 cong: conj_cong)
  apply (case_tac "bit v n"; simp)
  apply (simp add: not_less [symmetric])
  apply blast
  done

lemma Uint64_PutUint64: "Uint64 bo (PutUint64 bo v @ rest) = v"
  unfolding Uint64_def PutUint64_def
  apply (cases bo; simp)
   apply (rule bit_word_eqI)
   apply (simp add: bit_simps less_diff_conv2 cong: conj_cong)
   apply (case_tac "bit v n"; simp)
   apply (simp add: not_less [symmetric])
   apply blast
  apply (rule bit_word_eqI)
  apply (simp add: bit_simps less_diff_conv2 cong: conj_cong)
  apply (case_tac "bit v n"; simp)
  apply (simp add: not_less [symmetric])
  apply blast
  done

lemma length_PutUint32 [simp]: "length (PutUint32 bo v) = 4"
  by (cases bo) (simp_all add: PutUint32_def)

lemma length_PutUint64 [simp]: "length (PutUint64 bo v) = 8"
  by (cases bo) (simp_all add: PutUint64_def)

lemma Read_append: "Read (a @ rest) (length a) = Some (a, rest)"
  by (simp add: Read_def)

lemma Read_zero: "Read b 0 = Some ([], b)"
  by (simp add: Read_def)

lemma Read_all: "Read a (length a) = Some (a, [])"
  by (simp add: Read_def)

lemma ReadInt32_WriteInt32:
  "n < 2 ^ 32 \<Longrightarrow> ReadInt32 bo (WriteInt32 bo n @ rest) = Some (n, rest)"
  by (simp add: ReadInt32_def WriteInt32_def Width32bits_def Uint32_PutUint32 unat_of_nat)

lemma Read_EncodeTime:
  "Read (EncodeTime bo ts @ rest) Width64bits = Some (EncodeTime bo ts, rest)"
  using Read_append [of "EncodeTime bo ts" rest]
  by (simp add: EncodeTime_def Width64bits_def)

lemma UnixNano_in_range: "- (2 ^ 63) \<le> ts \<Longrightarrow> ts < 2 ^ 63 \<Longrightarrow> UnixNano ts = ts"
  by (simp add: UnixNano_def int_word_sint)

lemma TimeFromBytes_EncodeTime: "TimeFromBytes bo (EncodeTime bo ts) = UnixNano ts"
  using Uint64_PutUint64 [of bo "word_of_int (UnixNano ts)" "[]"]
  by (simp add: TimeFromBytes_def EncodeTime_def UnixNano_def)

lemma length_EncodeTime: "length (EncodeTime bo ts) = Width64bits"
  by (simp add: EncodeTime_def Width64bits_def)

lemma table_insert_frame:
  assumes "length ds < 2 ^ 32" and "length vs < 2 ^ 32"
  shows "table_insert bo c t
           (EncodeTime bo ts @ WriteInt32 bo (length ds) @ ds @ WriteInt32 bo (length vs) @ vs)
           isFollower off src =
         (if Before (UnixNano ts) (truncateBefore c t) then (False, t)
          else if isFollower \<and> \<not> inPartition c t ds then (False, t)
          else recovered (doInsert c t (UnixNano ts) ds vs off src))"
  using assms
  by (simp add: table_insert_def Read_EncodeTime TimeFromBytes_EncodeTime
      ReadInt32_WriteInt32 Read_append Read_all recovered_def)

text \<open>
  Eight bytes cannot tell all instants apart and four bytes cannot tell all lengths apart,
  whatever the encoding: a bound on the timestamp and on the lengths is needed by any
  \<^verbatim>\<open>EncodeTime\<close> and \<^verbatim>\<open>WriteInt32\<close> that fill buffers of these widths.
\<close>
lemma fixed_width_not_injective:
  fixes enc :: "'a \<Rightarrow> bytes"
  assumes "\<And>v. length (enc v) = n" and "infinite (UNIV :: 'a set)"
  shows "\<not> inj enc"
proof
  assume i: "inj enc"
  have sub: "range enc \<subseteq> {xs. set xs \<subseteq> UNIV \<and> length xs = n}"
    using assms(1) by auto
  have fin: "finite {xs :: bytes. set xs \<subseteq> UNIV \<and> length xs = n}"
    by (rule finite_lists_length_eq) simp
  have "finite (range enc)"
    by (rule finite_subset [OF sub fin])
  then have "finite (UNIV :: 'a set)"
    using i by (rule finite_imageD)
  then show False
    using assms(2) by simp
qed

lemma EncodeTime_not_injective: "\<not> inj (EncodeTime bo)"
  by (rule fixed_width_not_injective [where n = 8])
     (simp_all add: EncodeTime_def infinite_UNIV_int)

lemma WriteInt32_not_injective: "\<not> inj (WriteInt32 bo)"
  by (rule fixed_width_not_injective [where n = 4])
     (simp_all add: WriteInt32_def)

text \<open>
  Claim C1 (WAL round-trip), as amended. For a point \<open>(ts, ds, vs)\<close> whose timestamp has a
  count of nanoseconds since the Unix epoch that fits a signed 64-bit integer (an instant
  between the years 1678 and 2262) and whose dims and vals are each shorter than \<open>2 ^ 32\<close>
  bytes, \<^verbatim>\<open>doInsertRaw\<close> writes the frame
  \<open>enc64(ts) @ enc32(length ds) @ ds @ enc32(length vs) @ vs\<close>; the timestamp decoded from
  that frame is \<open>ts\<close>, and \<^verbatim>\<open>table.insert\<close> on that frame, unless it drops the frame as
  stale or as out of partition, behaves exactly as \<^verbatim>\<open>doInsert\<close> called with the original
  \<open>ts\<close>, \<open>ds\<close> and \<open>vs\<close>, in either byte order.
\<close>
theorem wal_roundtrip:
  assumes "Write x = memWrite"
    and "- (2 ^ 63) \<le> ts" and "ts < 2 ^ 63"
    and "length ds < 2 ^ 32" and "length vs < 2 ^ 32"
  shows "doInsertRaw bo x w ts ds vs =
           (None, w @ [EncodeTime bo ts @ WriteInt32 bo (length ds) @ ds
                         @ WriteInt32 bo (length vs) @ vs]) \<and>
         TimeFromBytes bo (take Width64bits (last (snd (doInsertRaw bo x w ts ds vs)))) = ts \<and>
         table_insert bo c t (last (snd (doInsertRaw bo x w ts ds vs))) isFollower off src =
           (if Before ts (truncateBefore c t) then (False, t)
            else if isFollower \<and> \<not> inPartition c t ds then (False, t)
            else recovered (doInsert c t ts ds vs off src))"
proof -
  have w: "doInsertRaw bo x w ts ds vs =
           (None, w @ [EncodeTime bo ts @ WriteInt32 bo (length ds) @ ds
                         @ WriteInt32 bo (length vs) @ vs])"
    by (simp add: doInsertRaw_def assms(1) memWrite_def)
  have u: "UnixNano ts = ts"
    using assms(2,3) by (rule UnixNano_in_range)
  have d: "TimeFromBytes bo (take Width64bits
             (EncodeTime bo ts @ WriteInt32 bo (length ds) @ ds
                @ WriteInt32 bo (length vs) @ vs)) = ts"
    by (simp add: length_EncodeTime TimeFromBytes_EncodeTime u)
  show ?thesis
    unfolding w using table_insert_frame [OF assms(4,5), of bo c t ts isFollower off src] d
    by (simp add: u)
qed

text \<open>The round trip on the point \<open>(200, [1, 2], [3])\<close>.\<close>
theorem wal_roundtrip_witness:
  "table_insert BigEndian demoCollab emptyTable
     (last (snd (doInsertRaw BigEndian memCollab [] 200 [1, 2] [3]))) False [7] 0 =
   (True, emptyTable\<lparr>clock := 200,
      rowStore := [\<lparr>ins_key = Some [1, 2], ins_tsparams = Some [3], ins_dims = Some [1, 2],
                    ins_offset = [7], ins_source = 0\<rparr>],
      stats := \<lparr>FilteredPoints = 0, InsertedPoints = 1, QueuedPoints = 0\<rparr>\<rparr>)"
proof -
  have h1: "Write memCollab = memWrite" by (simp add: memCollab_def)
  have h2: "- (2 ^ 63) \<le> (200 :: Time)" by simp
  have h3: "(200 :: Time) < 2 ^ 63" by simp
  have h4: "length [1, 2 :: byte] < 2 ^ 32" by simp
  have h5: "length [3 :: byte] < 2 ^ 32" by simp
  note r = wal_roundtrip [OF h1 h2 h3 h4 h5,
      of BigEndian "[]" demoCollab emptyTable False "[7]" 0]
  show ?thesis
    unfolding conjunct2 [OF conjunct2 [OF r]]
    by (simp add: demoCollab_def emptyTable_def Before_def recovered_def doInsert_def
        Advance_def)
qed

text \<open>
  Without the bounds the round trip fails. An instant in the year 2300, whose count of
  nanoseconds does not fit a signed 64-bit integer, is read back as an instant \<open>2 ^ 64\<close>
  nanoseconds earlier, in the year 1715, which this table drops as stale. Vals of
  \<open>2 ^ 32\<close> bytes get the length prefix 0 and are read back as empty.
\<close>
theorem wal_roundtrip_counterexample:
  "TimeFromBytes BigEndian (take Width64bits
     (last (snd (doInsertRaw BigEndian memCollab [] 10413792000000000000 [1, 2] [3]))))
     \<noteq> 10413792000000000000 \<and>
   table_insert BigEndian demoCollab emptyTable
     (last (snd (doInsertRaw BigEndian memCollab [] 10413792000000000000 [1, 2] [3])))
     False [7] 0
   \<noteq> recovered (doInsert demoCollab emptyTable 10413792000000000000 [1, 2] [3] [7] 0) \<and>
   table_insert BigEndian demoCollab emptyTable
     (last (snd (doInsertRaw BigEndian memCollab [] 200 [] (replicate (2 ^ 32) 0)))) False [] 0
   \<noteq> recovered (doInsert demoCollab emptyTable 200 [] (replicate (2 ^ 32) 0) [] 0)"
proof -
  let ?ts = "10413792000000000000 :: Time"
  have un: "UnixNano ?ts = - 8032952073709551616"
    by (simp add: UnixNano_def)
  have fr: "last (snd (doInsertRaw BigEndian memCollab [] ?ts [1, 2] [3])) =
      EncodeTime BigEndian ?ts @ WriteInt32 BigEndian (length [1, 2 :: byte]) @ [1, 2]
        @ WriteInt32 BigEndian (length [3 :: byte]) @ [3]"
    by (simp add: doInsertRaw_def memCollab_def memWrite_def)
  have c1: "TimeFromBytes BigEndian (take Width64bits
     (last (snd (doInsertRaw BigEndian memCollab [] ?ts [1, 2] [3])))) \<noteq> ?ts"
    unfolding fr by (simp add: length_EncodeTime TimeFromBytes_EncodeTime un)
  have stale: "table_insert BigEndian demoCollab emptyTable
     (last (snd (doInsertRaw BigEndian memCollab [] ?ts [1, 2] [3]))) False [7] 0 =
     (False, emptyTable)"
    unfolding fr
    using table_insert_frame [of "[1, 2]" "[3]" BigEndian demoCollab emptyTable ?ts False "[7]" 0]
    by (simp add: un Before_def demoCollab_def)
  have "recovered (doInsert demoCollab emptyTable ?ts [1, 2] [3] [7] 0) \<noteq>
        (False, emptyTable)"
    by (simp add: recovered_def doInsert_def demoCollab_def emptyTable_def)
  then have c2: "table_insert BigEndian demoCollab emptyTable
     (last (snd (doInsertRaw BigEndian memCollab [] ?ts [1, 2] [3]))) False [7] 0
     \<noteq> recovered (doInsert demoCollab emptyTable ?ts [1, 2] [3] [7] 0)"
    unfolding stale by (rule not_sym)
  define big :: bytes where "big = replicate (2 ^ 32) 0"
  have len: "length big = 2 ^ 32" by (simp only: big_def length_replicate)
  have ne: "big \<noteq> []" using len by auto
  have "(word_of_nat (2 ^ 32) :: 32 word) = 0"
    by (simp only: word_of_nat_eq_0_iff) simp
  then have enc: "WriteInt32 BigEndian (length big) = WriteInt32 BigEndian 0"
    by (simp only: len WriteInt32_def) simp
  have frame: "last (snd (doInsertRaw BigEndian memCollab [] 200 [] big)) =
      EncodeTime BigEndian 200 @ WriteInt32 BigEndian 0 @ [] @ WriteInt32 BigEndian 0 @ big"
    by (simp add: doInsertRaw_def memCollab_def memWrite_def enc del: One_nat_def)
  have u200: "UnixNano 200 = 200"
    by (rule UnixNano_in_range) simp_all
  have dec: "table_insert BigEndian demoCollab emptyTable
      (EncodeTime BigEndian 200 @ WriteInt32 BigEndian 0 @ [] @ WriteInt32 BigEndian 0 @ big)
      False [] 0 = recovered (doInsert demoCollab emptyTable 200 [] [] [] 0)"
    using ReadInt32_WriteInt32 [of 0 BigEndian]
    by (simp add: table_insert_def Read_EncodeTime TimeFromBytes_EncodeTime Read_zero
        demoCollab_def Before_def u200)
  have "recovered (doInsert demoCollab emptyTable 200 [] [] [] 0) \<noteq>
        recovered (doInsert demoCollab emptyTable 200 [] big [] 0)"
    using ne by (simp add: recovered_def doInsert_def demoCollab_def emptyTable_def)
  then have c3: "table_insert BigEndian demoCollab emptyTable
     (last (snd (doInsertRaw BigEndian memCollab [] 200 [] big))) False [] 0
     \<noteq> recovered (doInsert demoCollab emptyTable 200 [] big [] 0)"
    unfolding frame dec .
  show ?thesis
    using c1 c2 c3 unfolding big_def by (intro conjI)
qed

subsection \<open>Stale frames\<close>

text \<open>
  Claim C4 (staleness drop). A frame long enough to hold a timestamp, whose decoded
  timestamp is before \<^verbatim>\<open>t.truncateBefore()\<close>, makes \<^verbatim>\<open>table.insert\<close> return false and
  leave the table as it was: no effect of \<^verbatim>\<open>doInsert\<close> (row, clock, FilteredPoints or
  InsertedPoints) is there. The worker then calls \<^verbatim>\<open>skip\<close>, which hands the row store one
  insert whose key, tsparams and dims are nil and which carries the offset and source of
  the frame; the stats, and so InsertedPoints, are unchanged.
\<close>
theorem stale_frame_skipped:
  assumes "Width64bits \<le> length d"
    and "Before (TimeFromBytes bo (take Width64bits d)) (truncateBefore c t)"
  shows "table_insert bo c t d isFollower off src = (False, t) \<and>
         snd (processRead bo c isFollower minutePassed (w, t)
                \<lparr>data = Some d, roffset = off, rsource = src\<rparr>) = skip t off src \<and>
         rowStore (skip t off src) = rowStore t @
           [\<lparr>ins_key = None, ins_tsparams = None, ins_dims = None,
             ins_offset = off, ins_source = src\<rparr>] \<and>
         stats (skip t off src) = stats t \<and>
         InsertedPoints (stats (snd (processRead bo c isFollower minutePassed (w, t)
                \<lparr>data = Some d, roffset = off, rsource = src\<rparr>))) = InsertedPoints (stats t)"
proof -
  have ins: "table_insert bo c t d isFollower off src = (False, t)"
    using assms by (simp add: table_insert_def Read_def recovered_def)
  have pr: "snd (processRead bo c isFollower minutePassed (w, t)
                \<lparr>data = Some d, roffset = off, rsource = src\<rparr>) = skip t off src"
    by (simp add: processRead_def ins Let_def)
  show ?thesis
    unfolding pr using ins by (simp add: skip_def)
qed

text \<open>A frame with timestamp 5 at a table that keeps nothing older than 100.\<close>
theorem stale_frame_skipped_witness:
  "processRead BigEndian demoCollab False False
     (\<lparr>inserted = 0, skipped = 0, bytesRead = 0\<rparr>, emptyTable)
     \<lparr>data = Some [0, 0, 0, 0, 0, 0, 0, 5, 0, 0, 0, 0, 0, 0, 0, 0], roffset = [9], rsource = 0\<rparr>
   = (\<lparr>inserted = 0, skipped = 1, bytesRead = 16\<rparr>,
      emptyTable\<lparr>rowStore := [\<lparr>ins_key = None, ins_tsparams = None, ins_dims = None,
             ins_offset = [9], ins_source = 0\<rparr>]\<rparr>)"
proof -
  let ?d = "[0, 0, 0, 0, 0, 0, 0, 5, 0, 0, 0, 0, 0, 0, 0, 0] :: bytes"
  have h1: "Width64bits \<le> length ?d" by (simp add: Width64bits_def)
  have h2: "Before (TimeFromBytes BigEndian (take Width64bits ?d)) (truncateBefore demoCollab emptyTable)"
    by (simp add: Width64bits_def TimeFromBytes_def Uint64_def Before_def demoCollab_def)
  note r = stale_frame_skipped [OF h1 h2, of False "[9]" 0]
  have ins: "table_insert BigEndian demoCollab emptyTable ?d False [9] 0 = (False, emptyTable)"
    using r by simp
  have "processRead BigEndian demoCollab False False
     (\<lparr>inserted = 0, skipped = 0, bytesRead = 0\<rparr>, emptyTable)
     \<lparr>data = Some ?d, roffset = [9], rsource = 0\<rparr>
     = (\<lparr>inserted = 0, skipped = 1, bytesRead = 16\<rparr>, skip emptyTable [9] 0)"
    by (simp add: processRead_def ins)
  then show ?thesis
    by (simp add: skip_def emptyTable_def)
qed

subsection \<open>Refused inserts\<close>

text \<open>
  Claim C8 (preconditions of Insert and InsertRaw). On a follower the call returns the
  error InsertOnFollower; otherwise the stream name is lowercased, then trimmed, and when
  no WAL is registered under that name the call returns the error UnknownStream with the
  name as normalised. In both cases the database, with every WAL in it, is as before.
\<close>
theorem insert_refused:
  "(optsFollow db \<longrightarrow>
      InsertRaw bo x db stream ts ds vs = (Returned (Some InsertOnFollower), db) \<and>
      Insert bo x db stream ts dimsMap valsMap = (Returned (Some InsertOnFollower), db)) \<and>
   (\<not> optsFollow db \<and> streams db (TrimSpace x (ToLower x stream)) = None \<longrightarrow>
      InsertRaw bo x db stream ts ds vs =
        (Returned (Some (UnknownStream (TrimSpace x (ToLower x stream)))), db) \<and>
      Insert bo x db stream ts dimsMap valsMap =
        (Returned (Some (UnknownStream (TrimSpace x (ToLower x stream)))), db))"
  by (simp add: InsertRaw_def Insert_def)

lemma norm_demo: "TrimSpace memCollab (ToLower memCollab '' Other '') = ''other''"
  by code_simp

text \<open>A follower, and the unknown stream \<open>'' Other ''\<close>.\<close>
theorem insert_refused_witness:
  "InsertRaw BigEndian memCollab (memDB\<lparr>optsFollow := True\<rparr>) '' Events '' 200 [9] [1] =
     (Returned (Some InsertOnFollower), memDB\<lparr>optsFollow := True\<rparr>) \<and>
   InsertRaw BigEndian memCollab memDB '' Other '' 200 [9] [1] =
     (Returned (Some (UnknownStream ''other'')), memDB)"
proof -
  have f: "optsFollow (memDB\<lparr>optsFollow := True\<rparr>)" by simp
  have n: "\<not> optsFollow memDB \<and>
      streams memDB (TrimSpace memCollab (ToLower memCollab '' Other '')) = None"
    unfolding norm_demo by (simp add: memDB_def)
  note a = insert_refused [where db = "memDB\<lparr>optsFollow := True\<rparr>" and bo = BigEndian
      and x = memCollab and stream = "'' Events ''" and ts = 200 and ds = "[9]" and vs = "[1]",
      THEN conjunct1, rule_format, OF f, THEN conjunct1]
  note b = insert_refused [where db = memDB and bo = BigEndian
      and x = memCollab and stream = "'' Other ''" and ts = 200 and ds = "[9]" and vs = "[1]",
      THEN conjunct2, rule_format, OF n, THEN conjunct1]
  show ?thesis using a b unfolding norm_demo by simp
qed

subsection \<open>Empty vectors\<close>

lemma visitAll_panics:
  "\<exists>kv \<in> set kvs. emptyVector kv \<Longrightarrow> snd (visitAll bo x ts ds kvs st) = True"
proof (induction kvs arbitrary: st)
  case Nil
  then show ?case by simp
next
  case (Cons kv kvs)
  show ?case
  proof (cases "visit bo x ts ds st kv")
    case None
    then show ?thesis by simp
  next
    case (Some st')
    then have "\<not> emptyVector kv"
      by (cases kv; cases "snd kv") (auto simp: visit_def split: list.splits)
    with Cons.prems have "\<exists>kv \<in> set kvs. emptyVector kv" by auto
    from Cons.IH [OF this] Some show ?thesis by simp
  qed
qed

text \<open>
  Claim C10 (empty vector). On a database that is not a follower and for a known stream,
  a call of \<^verbatim>\<open>InsertRaw\<close> whose vals hold an empty \<^verbatim>\<open>[]float64\<close> or \<^verbatim>\<open>[]int\<close> under some
  key panics at \<^verbatim>\<open>v[0]\<close>: it neither drops the value nor returns an error.
\<close>
theorem empty_vector_panics:
  assumes "\<not> optsFollow db"
    and "streams db (TrimSpace x (ToLower x stream)) \<noteq> None"
    and "(k, VFloat64s []) \<in> set (IterateValues x vs) \<or> (k, VInts []) \<in> set (IterateValues x vs)"
  shows "fst (InsertRaw bo x db stream ts ds vs) = Panicked"
proof -
  from assms(3) have "\<exists>kv \<in> set (IterateValues x vs). emptyVector kv"
    by (auto intro: bexI [of _ "(k, VFloat64s [])"] bexI [of _ "(k, VInts [])"])
  from visitAll_panics [OF this]
  have p: "snd (visitAll bo x ts ds (IterateValues x vs) st) = True" for st .
  from assms(2) obtain w where w: "streams db (TrimSpace x (ToLower x stream)) = Some w"
    by auto
  obtain st' where v: "visitAll bo x ts ds (IterateValues x vs)
      \<lparr>wal = w, lastErr = None, hasMainValue = False, mainIncluded = []\<rparr> = (st', True)"
    using p [of "\<lparr>wal = w, lastErr = None, hasMainValue = False, mainIncluded = []\<rparr>"]
    by (cases "visitAll bo x ts ds (IterateValues x vs)
      \<lparr>wal = w, lastErr = None, hasMainValue = False, mainIncluded = []\<rparr>") simp
  show ?thesis
    using assms(1) by (simp add: InsertRaw_def w v)
qed

text \<open>The vals \<open>{x: 7, k: []int{}}\<close> on the stream \<open>'' Events ''\<close>.\<close>
theorem empty_vector_panics_witness:
  "fst (InsertRaw BigEndian memCollab memDB '' Events '' 200 [9] [2]) = Panicked"
proof -
  have h1: "\<not> optsFollow memDB" by (simp add: memDB_def)
  have n: "TrimSpace memCollab (ToLower memCollab '' Events '') = ''events''" by code_simp
  have h2: "streams memDB (TrimSpace memCollab (ToLower memCollab '' Events '')) \<noteq> None"
    unfolding n by (simp add: memDB_def)
  have h3: "(''k'', VFloat64s []) \<in> set (IterateValues memCollab [2]) \<or>
            (''k'', VInts []) \<in> set (IterateValues memCollab [2])"
    by (simp add: memCollab_def demoValues_def)
  show ?thesis
    by (rule empty_vector_panics [OF h1 h2 h3])
qed

subsection \<open>Vector expansion\<close>

lemma writeRows_append:
  "writeRows bo x ts ds (rs @ rs') st = writeRows bo x ts ds rs' (writeRows bo x ts ds rs st)"
proof (induction rs arbitrary: st)
  case Nil
  then show ?case by simp
next
  case (Cons r rs)
  obtain w e where st: "st = (w, e)" by (cases st)
  show ?case
    unfolding st by (simp add: Cons.IH split: prod.splits)
qed

lemma subInserts_writeRows:
  "subInserts bo x ts ds k rest st =
     (case writeRows bo x ts ds (map (\<lambda>a. [(k, a)]) rest) (wal st, lastErr st) of
        (w', e') \<Rightarrow> st\<lparr>wal := w', lastErr := e'\<rparr>)"
proof (induction rest arbitrary: st)
  case Nil
  then show ?case by simp
next
  case (Cons a rest)
  show ?case
    by (cases "doInsertRaw bo x (wal st) ts ds (Build x [(k, a)])")
       (simp add: Cons.IH split: prod.splits)
qed

lemma visit_rows:
  assumes "\<not> emptyVector kv"
  shows "\<exists>st'. visit bo x ts ds st kv = Some st' \<and>
           (wal st', lastErr st') = writeRows bo x ts ds (subRows x [kv]) (wal st, lastErr st) \<and>
           mainIncluded st' = mainIncluded st @ mainRow x [kv] \<and>
           hasMainValue st' = (hasMainValue st \<or> mainRow x [kv] \<noteq> [])"
proof -
  obtain k v where kv: "kv = (k, v)" by (cases kv)
  show ?thesis
  proof (cases v)
    case (VFloat64s l)
    with assms kv obtain v0 rest where l: "l = v0 # rest" by (cases l) auto
    show ?thesis
      unfolding kv VFloat64s l
      by (simp add: visit_def subInserts_writeRows includeMain_def split: prod.splits)
  next
    case (VInts l)
    with assms kv obtain v0 rest where l: "l = v0 # rest" by (cases l) auto
    show ?thesis
      unfolding kv VInts l
      by (simp add: visit_def subInserts_writeRows includeMain_def comp_def split: prod.splits)
  qed (simp_all add: kv visit_def includeMain_def)
qed

lemma mainRow_Cons: "mainRow x (kv # kvs) = mainRow x [kv] @ mainRow x kvs"
  by (cases "(x, [kv])" rule: mainRow.cases) auto

lemma subRows_Cons: "subRows x (kv # kvs) = subRows x [kv] @ subRows x kvs"
  by (cases "(x, [kv])" rule: subRows.cases) auto

lemma visitAll_rows:
  assumes "\<forall>kv \<in> set kvs. \<not> emptyVector kv"
  shows "\<exists>st'. visitAll bo x ts ds kvs st = (st', False) \<and>
           (wal st', lastErr st') = writeRows bo x ts ds (subRows x kvs) (wal st, lastErr st) \<and>
           mainIncluded st' = mainIncluded st @ mainRow x kvs \<and>
           hasMainValue st' = (hasMainValue st \<or> mainRow x kvs \<noteq> [])"
  using assms
proof (induction kvs arbitrary: st)
  case Nil
  then show ?case by simp
next
  case (Cons kv kvs)
  from Cons.prems have ne: "\<not> emptyVector kv" and rest: "\<forall>kv \<in> set kvs. \<not> emptyVector kv"
    by simp_all
  from visit_rows [OF ne, of bo x ts ds st] obtain st1 where
    v: "visit bo x ts ds st kv = Some st1"
    and w1: "(wal st1, lastErr st1) = writeRows bo x ts ds (subRows x [kv]) (wal st, lastErr st)"
    and m1: "mainIncluded st1 = mainIncluded st @ mainRow x [kv]"
    and h1: "hasMainValue st1 = (hasMainValue st \<or> mainRow x [kv] \<noteq> [])"
    by blast
  from Cons.IH [OF rest, of st1] obtain st2 where
    v2: "visitAll bo x ts ds kvs st1 = (st2, False)"
    and w2: "(wal st2, lastErr st2) = writeRows bo x ts ds (subRows x kvs) (wal st1, lastErr st1)"
    and m2: "mainIncluded st2 = mainIncluded st1 @ mainRow x kvs"
    and h2: "hasMainValue st2 = (hasMainValue st1 \<or> mainRow x kvs \<noteq> [])"
    by blast
  have "visitAll bo x ts ds (kv # kvs) st = (st2, False)"
    by (simp add: v v2)
  moreover have "(wal st2, lastErr st2) =
      writeRows bo x ts ds (subRows x (kv # kvs)) (wal st, lastErr st)"
    unfolding subRows_Cons [of x kv kvs] writeRows_append w1 [symmetric] by (rule w2)
  moreover have "mainIncluded st2 = mainIncluded st @ mainRow x (kv # kvs)"
    unfolding mainRow_Cons [of x kv kvs] by (simp add: m2 m1)
  moreover have "hasMainValue st2 = (hasMainValue st \<or> mainRow x (kv # kvs) \<noteq> [])"
    unfolding mainRow_Cons [of x kv kvs] by (simp add: h2 h1)
  ultimately show ?case by blast
qed

lemma mainRow_first:
  "(k, VFloat64s (a # rest)) \<in> set kvs \<Longrightarrow> (k, a) \<in> set (mainRow x kvs)"
  "(k, VInts (i # irest)) \<in> set kvs \<Longrightarrow> (k, toFloat64 x i) \<in> set (mainRow x kvs)"
  by (induction x kvs rule: mainRow.induct) auto

lemma subRows_further:
  "(k, VFloat64s (a # rest)) \<in> set kvs \<Longrightarrow> b \<in> set rest \<Longrightarrow> [(k, b)] \<in> set (subRows x kvs)"
  "(k, VInts (i # irest)) \<in> set kvs \<Longrightarrow> j \<in> set irest
     \<Longrightarrow> [(k, toFloat64 x j)] \<in> set (subRows x kvs)"
  by (induction x kvs rule: subRows.induct) auto

text \<open>
  Claim C5 (vector expansion), as amended. A call of \<^verbatim>\<open>InsertRaw\<close> on a database that is
  not a follower, for a known stream and with vals that hold no empty vector, issues
  exactly the writes of \<open>expandedRows\<close>, each by
  \<^verbatim>\<open>doInsertRaw\<close> with the timestamp and dims of the call: one row \<open>{k: ai}\<close> for each
  further element of each vector under key \<open>k\<close>, then the single main row, which holds the
  scalars and the first element of each vector (ints promoted to float64). It returns the
  last error of these writes.
\<close>
theorem vector_expansion:
  assumes "\<not> optsFollow db"
    and "streams db (TrimSpace x (ToLower x stream)) = Some w"
    and "\<forall>kv \<in> set (IterateValues x vs). \<not> emptyVector kv"
  shows "InsertRaw bo x db stream ts ds vs =
           (Returned (snd (writeRows bo x ts ds (expandedRows x (IterateValues x vs)) (w, None))),
            db\<lparr>streams := (streams db)(TrimSpace x (ToLower x stream) \<mapsto>
                  fst (writeRows bo x ts ds (expandedRows x (IterateValues x vs)) (w, None)))\<rparr>) \<and>
         ((k, VFloat64s (a # rest)) \<in> set (IterateValues x vs) \<longrightarrow>
           (k, a) \<in> set (mainRow x (IterateValues x vs)) \<and>
           (\<forall>b \<in> set rest. [(k, b)] \<in> set (expandedRows x (IterateValues x vs)))) \<and>
         ((k, VInts (i # irest)) \<in> set (IterateValues x vs) \<longrightarrow>
           (k, toFloat64 x i) \<in> set (mainRow x (IterateValues x vs)) \<and>
           (\<forall>j \<in> set irest. [(k, toFloat64 x j)] \<in> set (expandedRows x (IterateValues x vs))))"
proof -
  let ?kvs = "IterateValues x vs"
  let ?st0 = "\<lparr>wal = w, lastErr = None, hasMainValue = False, mainIncluded = []\<rparr>"
  from visitAll_rows [OF assms(3), of bo x ts ds ?st0] obtain st' where
    v: "visitAll bo x ts ds ?kvs ?st0 = (st', False)"
    and w': "(wal st', lastErr st') = writeRows bo x ts ds (subRows x ?kvs) (w, None)"
    and m: "mainIncluded st' = mainRow x ?kvs"
    and h: "hasMainValue st' = (mainRow x ?kvs \<noteq> [])"
    by auto
  have 1: "InsertRaw bo x db stream ts ds vs =
           (Returned (snd (writeRows bo x ts ds (expandedRows x ?kvs) (w, None))),
            db\<lparr>streams := (streams db)(TrimSpace x (ToLower x stream) \<mapsto>
                  fst (writeRows bo x ts ds (expandedRows x ?kvs) (w, None)))\<rparr>)"
    using assms(1)
    by (simp add: InsertRaw_def assms(2) v m h expandedRows_def writeRows_append w' [symmetric]
        split: prod.splits)
  have 2: "(k, VFloat64s (a # rest)) \<in> set ?kvs \<longrightarrow>
           (k, a) \<in> set (mainRow x ?kvs) \<and>
           (\<forall>b \<in> set rest. [(k, b)] \<in> set (expandedRows x ?kvs))"
    using mainRow_first(1) [of k a rest ?kvs x] subRows_further(1) [of k a rest ?kvs _ x]
    by (auto simp: expandedRows_def)
  have 3: "(k, VInts (i # irest)) \<in> set ?kvs \<longrightarrow>
           (k, toFloat64 x i) \<in> set (mainRow x ?kvs) \<and>
           (\<forall>j \<in> set irest. [(k, toFloat64 x j)] \<in> set (expandedRows x ?kvs))"
    using mainRow_first(2) [of k i irest ?kvs x] subRows_further(2) [of k i irest ?kvs _ x]
    by (auto simp: expandedRows_def)
  from 1 2 3 show ?thesis by blast
qed

text \<open>The vals \<open>{k: [10, 20, 30], x: 7}\<close>: rows \<open>{k: 20}\<close>, \<open>{k: 30}\<close> and \<open>{k: 10, x: 7}\<close>.\<close>
theorem vector_expansion_witness:
  "InsertRaw BigEndian memCollab memDB '' Events '' 200 [9] [1] =
     (Returned None,
      memDB\<lparr>streams := (streams memDB)(''events'' \<mapsto>
        [[0, 0, 0, 0, 0, 0, 0, 200, 0, 0, 0, 1, 9, 0, 0, 0, 2, 107, 20],
         [0, 0, 0, 0, 0, 0, 0, 200, 0, 0, 0, 1, 9, 0, 0, 0, 2, 107, 30],
         [0, 0, 0, 0, 0, 0, 0, 200, 0, 0, 0, 1, 9, 0, 0, 0, 4, 107, 10, 120, 7]])\<rparr>) \<and>
   (''k'', 10) \<in> set (mainRow memCollab (IterateValues memCollab [1])) \<and>
   [(''k'', 20)] \<in> set (expandedRows memCollab (IterateValues memCollab [1])) \<and>
   [(''k'', 30)] \<in> set (expandedRows memCollab (IterateValues memCollab [1]))"
proof -
  have n: "TrimSpace memCollab (ToLower memCollab '' Events '') = ''events''" by code_simp
  have h1: "\<not> optsFollow memDB" by (simp add: memDB_def)
  have h2: "streams memDB (TrimSpace memCollab (ToLower memCollab '' Events '')) = Some []"
    unfolding n by (simp add: memDB_def)
  have kvs: "IterateValues memCollab [1] = [(''k'', VFloat64s [10, 20, 30]), (''x'', VInt 7)]"
    by (simp add: memCollab_def demoValues_def)
  have h3: "\<forall>kv \<in> set (IterateValues memCollab [1]). \<not> emptyVector kv"
    unfolding kvs by simp
  have rows: "expandedRows memCollab (IterateValues memCollab [1]) =
      [[(''k'', 20)], [(''k'', 30)], [(''k'', 10), (''x'', 7)]]"
    unfolding kvs by (simp add: expandedRows_def memCollab_def)
  have b1: "Build memCollab [(''k'', 20)] = [107, 20]"
    and b2: "Build memCollab [(''k'', 30)] = [107, 30]"
    and b3: "Build memCollab [(''k'', 10), (''x'', 7)] = [107, 10, 120, 7]"
    by (simp_all add: memCollab_def demoBuild_def)
  have wr: "doInsertRaw BigEndian memCollab w 200 [9] v =
      (None, w @ [[0, 0, 0, 0, 0, 0, 0, 200, 0, 0, 0, 1, 9] @ WriteInt32 BigEndian (length v) @ v])" for w v
    by (simp add: doInsertRaw_def memCollab_def memWrite_def EncodeTime_def PutUint64_def
        WriteInt32_def PutUint32_def UnixNano_in_range)
  have written: "writeRows BigEndian memCollab 200 [9]
      (expandedRows memCollab (IterateValues memCollab [1])) ([], None) =
      ([[0, 0, 0, 0, 0, 0, 0, 200, 0, 0, 0, 1, 9, 0, 0, 0, 2, 107, 20],
        [0, 0, 0, 0, 0, 0, 0, 200, 0, 0, 0, 1, 9, 0, 0, 0, 2, 107, 30],
        [0, 0, 0, 0, 0, 0, 0, 200, 0, 0, 0, 1, 9, 0, 0, 0, 4, 107, 10, 120, 7]], None)"
    unfolding rows by (simp add: wr b1 b2 b3 WriteInt32_def PutUint32_def)
  note r = vector_expansion [OF h1 h2 h3, where bo = BigEndian and ts = 200 and ds = "[9]"
      and k = "''k''" and a = 10 and rest = "[20, 30]"]
  have mem: "(''k'', VFloat64s [10, 20, 30]) \<in> set (IterateValues memCollab [1])"
    unfolding kvs by simp
  from r mem show ?thesis
    unfolding written n by simp
qed

text \<open>
  Without these conditions the rows are not written. A follower refuses the call and an
  unknown stream has no WAL: nothing is written for the vector \<open>[10, 20, 30]\<close>. The vals
  \<open>{a: [1, 2], b: [], c: 5}\<close> hold the vector \<open>[1, 2]\<close> under \<open>a\<close>: the sub row \<open>{a: 2}\<close>
  is written, then the call panics at the empty vector, and no main row with \<open>a: 1\<close> and
  \<open>c: 5\<close> is written.
\<close>
theorem vector_expansion_counterexample:
  "(''k'', VFloat64s [10, 20, 30]) \<in> set (IterateValues memCollab [1]) \<and>
   InsertRaw BigEndian memCollab followerDB '' Events '' 200 [9] [1] =
     (Returned (Some InsertOnFollower), followerDB) \<and>
   InsertRaw BigEndian memCollab memDB ''other'' 200 [9] [1] =
     (Returned (Some (UnknownStream ''other'')), memDB) \<and>
   (''a'', VFloat64s [1, 2]) \<in> set (IterateValues memCollab [3]) \<and>
   (''c'', VInt 5) \<in> set (IterateValues memCollab [3]) \<and>
   InsertRaw BigEndian memCollab memDB '' Events '' 200 [9] [3] =
     (Panicked,
      memDB\<lparr>streams := (streams memDB)(''events'' \<mapsto>
        [[0, 0, 0, 0, 0, 0, 0, 200, 0, 0, 0, 1, 9, 0, 0, 0, 2, 97, 2]])\<rparr>)"
proof -
  have n: "TrimSpace memCollab (ToLower memCollab '' Events '') = ''events''" by code_simp
  have n': "TrimSpace memCollab (ToLower memCollab ''other'') = ''other''" by code_simp
  have u200: "UnixNano 200 = 200"
    by (rule UnixNano_in_range) simp_all
  have kvs1: "(''k'', VFloat64s [10, 20, 30]) \<in> set (IterateValues memCollab [1])"
    by (simp add: memCollab_def demoValues_def)
  have kvs3: "IterateValues memCollab [3] =
      [(''a'', VFloat64s [1, 2]), (''b'', VFloat64s []), (''c'', VInt 5)]"
    by (simp add: memCollab_def demoValues_def)
  have fo: "InsertRaw BigEndian memCollab followerDB '' Events '' 200 [9] [1] =
     (Returned (Some InsertOnFollower), followerDB)"
    by (simp add: InsertRaw_def followerDB_def)
  have un: "InsertRaw BigEndian memCollab memDB ''other'' 200 [9] [1] =
     (Returned (Some (UnknownStream ''other'')), memDB)"
    by (simp add: InsertRaw_def n' memDB_def)
  have b: "Build memCollab [(''a'', 2)] = [97, 2]"
    by (simp add: memCollab_def demoBuild_def)
  have wr: "doInsertRaw BigEndian memCollab [] 200 [9] [97, 2] =
      (None, [[0, 0, 0, 0, 0, 0, 0, 200, 0, 0, 0, 1, 9, 0, 0, 0, 2, 97, 2]])"
    by (simp add: doInsertRaw_def memCollab_def memWrite_def EncodeTime_def PutUint64_def
        WriteInt32_def PutUint32_def u200)
  have pa: "InsertRaw BigEndian memCollab memDB '' Events '' 200 [9] [3] =
     (Panicked,
      memDB\<lparr>streams := (streams memDB)(''events'' \<mapsto>
        [[0, 0, 0, 0, 0, 0, 0, 200, 0, 0, 0, 1, 9, 0, 0, 0, 2, 97, 2]])\<rparr>)"
    unfolding InsertRaw_def n kvs3
    by (simp add: memDB_def visit_def includeMain_def b wr)
  show ?thesis
    using kvs1 fo un pa unfolding kvs3 by simp
qed

subsection \<open>Stats counters\<close>

text \<open>
  A panic after \<^verbatim>\<open>clock.Advance\<close> is recovered by \<^verbatim>\<open>insert\<close> with the clock moved and
  nothing else changed.
\<close>
lemma doInsert_panics_after_Advance:
  assumes "getWhere t = None" and "TableGroupBy t = []" and "NewTSParams c ts vs = Panicked"
  shows "recovered (doInsert c t ts ds vs off src) = (False, t\<lparr>clock := Advance (clock t) ts\<rparr>)"
  using assms by (simp add: doInsert_def recovered_def)

lemma doInsert_stats:
  assumes "doInsert c t ts ds vs off src = (r, t')"
  shows "InsertedPoints (stats t') =
           InsertedPoints (stats t) + (if r = Returned True then 1 else 0)"
    and "FilteredPoints (stats t') =
           FilteredPoints (stats t) + (if r = Returned False then 1 else 0)"
    and "QueuedPoints (stats t') = QueuedPoints (stats t)"
  using assms
  by (auto simp: doInsert_def Let_def
      split: option.splits Value.splits bool.splits prod.splits if_splits outcome.splits)

lemma table_insert_stats:
  assumes "table_insert bo c t d isFollower off src = (b, t')"
  shows "InsertedPoints (stats t') = InsertedPoints (stats t) + (if b then 1 else 0)"
    and "FilteredPoints (stats t') = FilteredPoints (stats t) \<or>
         FilteredPoints (stats t') = FilteredPoints (stats t) + 1"
    and "QueuedPoints (stats t') = QueuedPoints (stats t)"
proof -
  have "(b, t') = (False, t) \<or>
        (\<exists>ts ds vs r. doInsert c t ts ds vs off src = (r, t') \<and> b = (r = Returned True))"
    using assms
    by (auto simp: table_insert_def recovered_def Let_def
        split: option.splits prod.splits if_splits outcome.splits)
  then show "InsertedPoints (stats t') = InsertedPoints (stats t) + (if b then 1 else 0)"
    and "FilteredPoints (stats t') = FilteredPoints (stats t) \<or>
         FilteredPoints (stats t') = FilteredPoints (stats t) + 1"
    and "QueuedPoints (stats t') = QueuedPoints (stats t)"
    using doInsert_stats [of c t _ _ _ off src _ t'] by auto
qed

text \<open>
  What one operation adds to the three counters: the number \<open>n\<close> of calls of \<^verbatim>\<open>doInsert\<close>
  in it that returned true to InsertedPoints, and at most one to each of the others.
\<close>
lemma applyOp_stats:
  assumes "applyOp bo c t op = (t', n)"
  shows "\<exists>f q. n \<le> 1 \<and> f \<le> (1 :: nat) \<and> q \<le> (1 :: nat) \<and>
           InsertedPoints (stats t') = InsertedPoints (stats t) + of_nat n \<and>
           FilteredPoints (stats t') = FilteredPoints (stats t) + of_nat f \<and>
           QueuedPoints (stats t') = QueuedPoints (stats t) + of_nat q"
proof -
  have k: "n \<le> 1 \<and>
        InsertedPoints (stats t') = InsertedPoints (stats t) + of_nat n \<and>
        (FilteredPoints (stats t') = FilteredPoints (stats t) \<or>
         FilteredPoints (stats t') = FilteredPoints (stats t) + 1) \<and>
        (QueuedPoints (stats t') = QueuedPoints (stats t) \<or>
         QueuedPoints (stats t') = QueuedPoints (stats t) + 1)"
  proof (cases op)
    case (OpDoInsert ts ds vs off src)
    obtain r t1 where r: "doInsert c t ts ds vs off src = (r, t1)"
      by (cases "doInsert c t ts ds vs off src")
    from assms OpDoInsert r have "t' = t1" "n = (if r = Returned True then 1 else 0)" by auto
    with doInsert_stats [OF r] show ?thesis by auto
  next
    case (OpInsert d isFollower off src)
    obtain b t1 where r: "table_insert bo c t d isFollower off src = (b, t1)"
      by (cases "table_insert bo c t d isFollower off src")
    from assms OpInsert r have "t' = t1" "n = (if b then 1 else 0)" by auto
    with table_insert_stats [OF r] show ?thesis by auto
  next
    case (OpSkip off src)
    with assms show ?thesis by (auto simp: skip_def)
  next
    case OpRecordQueued
    with assms show ?thesis by (auto simp: recordQueued_def)
  next
    case (OpProcessRead isFollower minutePassed rd)
    show ?thesis
    proof (cases "data rd")
      case None
      with assms OpProcessRead show ?thesis by (simp add: processRead_def)
    next
      case (Some d)
      obtain b t1 where r: "table_insert bo c t d isFollower (roffset rd) (rsource rd) = (b, t1)"
        by (cases "table_insert bo c t d isFollower (roffset rd) (rsource rd)")
      from assms OpProcessRead Some r
      have e: "t' = (if b then t1 else skip t1 (roffset rd) (rsource rd))"
        "n = (if b then 1 else 0)"
        by (auto simp: processRead_def Let_def split: if_splits)
      have "stats (skip t1 (roffset rd) (rsource rd)) = stats t1" by (simp add: skip_def)
      with table_insert_stats [OF r] e show ?thesis by auto
    qed
  qed
  from k obtain f :: nat where f: "f \<le> 1"
      "FilteredPoints (stats t') = FilteredPoints (stats t) + of_nat f"
    by (auto intro: that [of 0] that [of 1])
  from k obtain q :: nat where q: "q \<le> 1"
      "QueuedPoints (stats t') = QueuedPoints (stats t) + of_nat q"
    by (auto intro: that [of 0] that [of 1])
  from k f q show ?thesis by blast
qed

lemma applyOps_stats:
  "applyOps bo c t ops = (t', n) \<Longrightarrow>
     \<exists>f q. n \<le> length ops \<and> f \<le> length ops \<and> q \<le> length ops \<and>
       InsertedPoints (stats t') = InsertedPoints (stats t) + of_nat n \<and>
       FilteredPoints (stats t') = FilteredPoints (stats t) + of_nat f \<and>
       QueuedPoints (stats t') = QueuedPoints (stats t) + of_nat q"
proof (induction ops arbitrary: t t' n)
  case Nil
  then show ?case by simp
next
  case (Cons op ops)
  obtain t1 n1 where 1: "applyOp bo c t op = (t1, n1)" by (cases "applyOp bo c t op")
  obtain t2 n2 where 2: "applyOps bo c t1 ops = (t2, n2)" by (cases "applyOps bo c t1 ops")
  from Cons.prems 1 2 have e: "t' = t2" "n = n1 + n2" by simp_all
  from applyOp_stats [OF 1] obtain f1 q1 where a: "n1 \<le> 1" "f1 \<le> 1" "q1 \<le> 1"
      "InsertedPoints (stats t1) = InsertedPoints (stats t) + of_nat n1"
      "FilteredPoints (stats t1) = FilteredPoints (stats t) + of_nat f1"
      "QueuedPoints (stats t1) = QueuedPoints (stats t) + of_nat q1"
    by blast
  from Cons.IH [OF 2] obtain f2 q2 where b: "n2 \<le> length ops" "f2 \<le> length ops"
      "q2 \<le> length ops"
      "InsertedPoints (stats t2) = InsertedPoints (stats t1) + of_nat n2"
      "FilteredPoints (stats t2) = FilteredPoints (stats t1) + of_nat f2"
      "QueuedPoints (stats t2) = QueuedPoints (stats t1) + of_nat q2"
    by blast
  have "n \<le> length (op # ops)" "f1 + f2 \<le> length (op # ops)" "q1 + q2 \<le> length (op # ops)"
    using a(1-3) b(1-3) e(2) by simp_all
  moreover have "InsertedPoints (stats t') = InsertedPoints (stats t) + of_nat n"
    unfolding e b(4) a(4) by simp
  moreover have "FilteredPoints (stats t') = FilteredPoints (stats t) + of_nat (f1 + f2)"
    unfolding e b(5) a(5) by simp
  moreover have "QueuedPoints (stats t') = QueuedPoints (stats t) + of_nat (q1 + q2)"
    unfolding e b(6) a(6) by simp
  ultimately show ?case by blast
qed

text \<open>A 64-bit counter to which \<open>d\<close> is added without reaching \<open>2 ^ 64\<close>.\<close>
lemma counter_add:
  fixes a :: "64 word"
  assumes "unat a + d < 2 ^ 64"
  shows "unat (a + of_nat d) = unat a + d" and "a \<le> a + of_nat d"
proof -
  have d: "unat (of_nat d :: 64 word) = d"
    using assms by (simp add: unat_of_nat)
  show u: "unat (a + of_nat d) = unat a + d"
    using assms d by (simp add: unat_add_lem [THEN iffD1])
  show "a \<le> a + of_nat d"
    unfolding word_le_nat_alt u by simp
qed

text \<open>
  Claim C9 (stats counters), as amended. The counters are 64-bit unsigned integers. Every
  operation of insert.go on a table leaves each of FilteredPoints, InsertedPoints and
  QueuedPoints unchanged or adds one to it, in 64-bit arithmetic: a counter below
  \<open>2 ^ 64 - 1\<close> does not decrease. Over a sequence of operations InsertedPoints grows,
  modulo \<open>2 ^ 64\<close>, by the number \<open>m\<close> of calls of \<^verbatim>\<open>doInsert\<close> that returned true, and by
  exactly \<open>m\<close> when its value before and \<open>m\<close> add up to less than \<open>2 ^ 64\<close>; a counter whose
  value before and the number of operations add up to less than \<open>2 ^ 64\<close> does not decrease.
\<close>
theorem stats_monotonic:
  "(applyOp bo c t op = (t', n) \<longrightarrow>
      n \<le> 1 \<and> InsertedPoints (stats t') = InsertedPoints (stats t) + of_nat n \<and>
      (FilteredPoints (stats t') = FilteredPoints (stats t) \<or>
       FilteredPoints (stats t') = FilteredPoints (stats t) + 1) \<and>
      (QueuedPoints (stats t') = QueuedPoints (stats t) \<or>
       QueuedPoints (stats t') = QueuedPoints (stats t) + 1) \<and>
      (unat (InsertedPoints (stats t)) < 2 ^ 64 - 1 \<longrightarrow>
         InsertedPoints (stats t) \<le> InsertedPoints (stats t')) \<and>
      (unat (FilteredPoints (stats t)) < 2 ^ 64 - 1 \<longrightarrow>
         FilteredPoints (stats t) \<le> FilteredPoints (stats t')) \<and>
      (unat (QueuedPoints (stats t)) < 2 ^ 64 - 1 \<longrightarrow>
         QueuedPoints (stats t) \<le> QueuedPoints (stats t'))) \<and>
   (applyOps bo c t ops = (t'', m) \<longrightarrow>
      InsertedPoints (stats t'') = InsertedPoints (stats t) + of_nat m \<and>
      (unat (InsertedPoints (stats t)) + m < 2 ^ 64 \<longrightarrow>
         unat (InsertedPoints (stats t'')) = unat (InsertedPoints (stats t)) + m) \<and>
      (unat (FilteredPoints (stats t)) + length ops < 2 ^ 64 \<longrightarrow>
         FilteredPoints (stats t) \<le> FilteredPoints (stats t'')) \<and>
      (unat (QueuedPoints (stats t)) + length ops < 2 ^ 64 \<longrightarrow>
         QueuedPoints (stats t) \<le> QueuedPoints (stats t'')))"
proof (intro conjI impI)
  assume 1: "applyOp bo c t op = (t', n)"
  from applyOp_stats [OF 1] obtain f q where a: "n \<le> 1" "f \<le> 1" "q \<le> 1"
      "InsertedPoints (stats t') = InsertedPoints (stats t) + of_nat n"
      "FilteredPoints (stats t') = FilteredPoints (stats t) + of_nat f"
      "QueuedPoints (stats t') = QueuedPoints (stats t) + of_nat q"
    by blast
  show "n \<le> 1" by (rule a(1))
  show "InsertedPoints (stats t') = InsertedPoints (stats t) + of_nat n" by (rule a(4))
  from a(2) have "f = 0 \<or> f = 1" by auto
  then show "FilteredPoints (stats t') = FilteredPoints (stats t) \<or>
       FilteredPoints (stats t') = FilteredPoints (stats t) + 1"
    unfolding a(5) by auto
  from a(3) have "q = 0 \<or> q = 1" by auto
  then show "QueuedPoints (stats t') = QueuedPoints (stats t) \<or>
       QueuedPoints (stats t') = QueuedPoints (stats t) + 1"
    unfolding a(6) by auto
  {
    assume "unat (InsertedPoints (stats t)) < 2 ^ 64 - 1"
    with a(1) have "unat (InsertedPoints (stats t)) + n < 2 ^ 64" by simp
    then show "InsertedPoints (stats t) \<le> InsertedPoints (stats t')"
      unfolding a(4) by (rule counter_add(2))
  }
  {
    assume "unat (FilteredPoints (stats t)) < 2 ^ 64 - 1"
    with a(2) have "unat (FilteredPoints (stats t)) + f < 2 ^ 64" by simp
    then show "FilteredPoints (stats t) \<le> FilteredPoints (stats t')"
      unfolding a(5) by (rule counter_add(2))
  }
  {
    assume "unat (QueuedPoints (stats t)) < 2 ^ 64 - 1"
    with a(3) have "unat (QueuedPoints (stats t)) + q < 2 ^ 64" by simp
    then show "QueuedPoints (stats t) \<le> QueuedPoints (stats t')"
      unfolding a(6) by (rule counter_add(2))
  }
next
  assume 2: "applyOps bo c t ops = (t'', m)"
  from applyOps_stats [OF 2]
  show "InsertedPoints (stats t'') = InsertedPoints (stats t) + of_nat m" by blast
next
  assume 2: "applyOps bo c t ops = (t'', m)"
    and b: "unat (InsertedPoints (stats t)) + m < 2 ^ 64"
  from applyOps_stats [OF 2]
  have "InsertedPoints (stats t'') = InsertedPoints (stats t) + of_nat m" by blast
  then show "unat (InsertedPoints (stats t'')) = unat (InsertedPoints (stats t)) + m"
    using counter_add(1) [OF b] by simp
next
  assume 2: "applyOps bo c t ops = (t'', m)"
    and b: "unat (FilteredPoints (stats t)) + length ops < 2 ^ 64"
  from applyOps_stats [OF 2] obtain f where f: "f \<le> length ops"
      "FilteredPoints (stats t'') = FilteredPoints (stats t) + of_nat f"
    by blast
  from b f(1) have "unat (FilteredPoints (stats t)) + f < 2 ^ 64" by simp
  then show "FilteredPoints (stats t) \<le> FilteredPoints (stats t'')"
    unfolding f(2) by (rule counter_add(2))
next
  assume 2: "applyOps bo c t ops = (t'', m)"
    and b: "unat (QueuedPoints (stats t)) + length ops < 2 ^ 64"
  from applyOps_stats [OF 2] obtain q where q: "q \<le> length ops"
      "QueuedPoints (stats t'') = QueuedPoints (stats t) + of_nat q"
    by blast
  from b q(1) have "unat (QueuedPoints (stats t)) + q < 2 ^ 64" by simp
  then show "QueuedPoints (stats t) \<le> QueuedPoints (stats t'')"
    unfolding q(2) by (rule counter_add(2))
qed

text \<open>
  Six operations, two of which insert a point, one filters one, one queues one and the
  last skips a stale frame.
\<close>
theorem stats_monotonic_witness:
  "stats (fst (applyOp BigEndian demoCollab filteringTable (OpDoInsert 200 [1] [2] [7] 0))) =
     \<lparr>FilteredPoints = 0, InsertedPoints = 1, QueuedPoints = 0\<rparr> \<and>
   snd (applyOps BigEndian demoCollab filteringTable demoOps) = 2 \<and>
   stats (fst (applyOps BigEndian demoCollab filteringTable demoOps)) =
     \<lparr>FilteredPoints = 1, InsertedPoints = 2, QueuedPoints = 1\<rparr> \<and>
   unat (InsertedPoints (stats (fst (applyOps BigEndian demoCollab filteringTable demoOps)))) =
     unat (InsertedPoints (stats filteringTable)) + 2 \<and>
   FilteredPoints (stats filteringTable) \<le>
     FilteredPoints (stats (fst (applyOps BigEndian demoCollab filteringTable demoOps))) \<and>
   QueuedPoints (stats filteringTable) \<le>
     QueuedPoints (stats (fst (applyOps BigEndian demoCollab filteringTable demoOps)))"
proof -
  let ?op = "OpDoInsert 200 [1] [2] [7] 0"
  let ?r1 = "applyOp BigEndian demoCollab filteringTable ?op"
  let ?r = "applyOps BigEndian demoCollab filteringTable demoOps"
  have one: "?r1 = (fst ?r1, 1)"
    by (simp add: filteringTable_def emptyTable_def doInsert_def demoCollab_def)
  have all: "?r = (fst ?r, 2)"
    by (simp add: demoOps_def filteringTable_def emptyTable_def doInsert_def demoCollab_def
        skip_def recordQueued_def table_insert_def recovered_def Read_def ReadInt32_def
        Width64bits_def Width32bits_def TimeFromBytes_def Uint64_def Uint32_def Before_def
        Advance_def Let_def processRead_def)
  have f: "FilteredPoints (stats (fst ?r)) = 1" and q: "QueuedPoints (stats (fst ?r)) = 1"
    and f1: "FilteredPoints (stats (fst ?r1)) = 0" and q1: "QueuedPoints (stats (fst ?r1)) = 0"
    by (simp_all add: demoOps_def filteringTable_def emptyTable_def doInsert_def demoCollab_def
        skip_def recordQueued_def table_insert_def recovered_def Read_def ReadInt32_def
        Width64bits_def Width32bits_def TimeFromBytes_def Uint64_def Uint32_def Before_def
        Advance_def Let_def processRead_def)
  have i0: "InsertedPoints (stats filteringTable) = 0"
    and f0: "FilteredPoints (stats filteringTable) = 0"
    and q0: "QueuedPoints (stats filteringTable) = 0"
    by (simp_all add: filteringTable_def emptyTable_def)
  have len: "length demoOps = 6"
    by (simp add: demoOps_def)
  note r = stats_monotonic [of BigEndian demoCollab filteringTable ?op "fst ?r1" 1 demoOps "fst ?r" 2]
  from r one have a1: "InsertedPoints (stats (fst ?r1)) = 1"
    unfolding i0 by simp
  from r all have a2: "InsertedPoints (stats (fst ?r)) = 2"
    unfolding i0 by simp
  from r all have a3: "unat (InsertedPoints (stats (fst ?r))) =
      unat (InsertedPoints (stats filteringTable)) + 2"
    unfolding i0 by simp
  from r all have a4: "FilteredPoints (stats filteringTable) \<le> FilteredPoints (stats (fst ?r))"
    unfolding f0 len by simp
  from r all have a5: "QueuedPoints (stats filteringTable) \<le> QueuedPoints (stats (fst ?r))"
    unfolding q0 len by simp
  have s: "snd ?r = 2"
    by (subst all) simp
  have s1: "stats (fst ?r1) = \<lparr>FilteredPoints = 0, InsertedPoints = 1, QueuedPoints = 0\<rparr>"
    using a1 f1 q1 by (cases "stats (fst ?r1)") simp
  have s2: "stats (fst ?r) = \<lparr>FilteredPoints = 1, InsertedPoints = 2, QueuedPoints = 1\<rparr>"
    using a2 f q by (cases "stats (fst ?r)") simp
  from s1 s s2 a3 a4 a5 show ?thesis
    by (intro conjI)
qed

text \<open>
  A counter at \<open>2 ^ 64 - 1\<close> wraps around: on such a table a call of \<^verbatim>\<open>doInsert\<close> returns
  true and InsertedPoints, which was 18446744073709551615, is 0 afterwards.
\<close>
theorem stats_monotonic_counterexample:
  "unat (InsertedPoints (stats fullTable)) = 18446744073709551615 \<and>
   fst (doInsert demoCollab fullTable 200 [1] [2] [7] 0) = Returned True \<and>
   unat (InsertedPoints (stats (snd (doInsert demoCollab fullTable 200 [1] [2] [7] 0)))) = 0 \<and>
   InsertedPoints (stats (snd (doInsert demoCollab fullTable 200 [1] [2] [7] 0))) <
     InsertedPoints (stats fullTable) \<and>
   applyOp BigEndian demoCollab fullTable (OpDoInsert 200 [1] [2] [7] 0) =
     (snd (doInsert demoCollab fullTable 200 [1] [2] [7] 0), 1)"
  by (simp add: fullTable_def emptyTable_def doInsert_def demoCollab_def)

section \<open>Properties of the planner\<close>

subsection \<open>The shape of a plan\<close>

lemma flattenSource_planFlat: "flattenSource (planFlat query source) = source"
  by (simp add: planFlat_def Let_def)

lemma planFilter_shape:
  assumes "planFilter d opts query source = Inr source1"
  shows "(Where query = None \<and> source1 = source) \<or>
         (\<exists>w run. Where query = Some w \<and> planSubQueries d query opts = Inr run \<and>
            source1 = core_Filter \<lparr>runSubQueries = run, queryWhere = w\<rparr> (WhereSQL query) source)"
  using assms by (auto simp: planFilter_def split: option.splits sum.splits)









subsection \<open>FROM sub-queries\<close>

text \<open>
  \<^verbatim>\<open>Plan\<close> returns as soon as the parser fails or the query is on a table; on a parser
  that keeps declaring sub-queries it does not return.
\<close>
lemma Plan_loops: "Plan loopDeps opts sqlString = None"
proof -
  have "d = loopDeps \<longrightarrow> False" if "Plan d opts sqlString = Some r" for d r
  proof (rule Plan.raw_induct [where P = "\<lambda>d opts sqlString r. d = loopDeps \<longrightarrow> False", OF _ that])
    fix Plan' d opts sqlString r
    assume IH: "\<And>d opts sqlString r. Plan' d opts sqlString = Some r \<Longrightarrow> d = loopDeps \<longrightarrow> False"
      and step: "(case Parse d sqlString of
        Inl err \<Rightarrow> Some (Inl err)
      | Inr query \<Rightarrow>
          (case FromSubQuery query of
             None \<Rightarrow> Some (planOn d opts query (Table (GetTable opts (From query))))
           | Some sq \<Rightarrow>
               Option.bind (Plan' d opts (SQL sq))
                 (\<lambda>r. case r of
                    Inl err \<Rightarrow> Some (Inl err)
                  | Inr subSource \<Rightarrow>
                      Some (planOn d opts query (core_Unflatten (SubQueryFields sq) subSource))))) =
      Some r"
    show "d = loopDeps \<longrightarrow> False"
    proof
      assume d: "d = loopDeps"
      from step have "\<exists>r'. Plan' loopDeps opts sqlString = Some r'"
        unfolding d by (auto simp: loopDeps_def split: Option.bind_splits)
      with IH show False by blast
    qed
  qed
  then show ?thesis by (cases "Plan loopDeps opts sqlString") auto
qed

lemma Plan_parse_error: "Parse d sqlString = Inl err \<Longrightarrow> Plan d opts sqlString = Some (Inl err)"
  by (subst Plan.simps) simp

lemma Plan_on_table:
  "Parse d sqlString = Inr query \<Longrightarrow> FromSubQuery query = None \<Longrightarrow>
     Plan d opts sqlString = Some (planOn d opts query (Table (GetTable opts (From query))))"
  by (subst Plan.simps) simp

lemma planOn_error:
  "planOn d opts parsed source = Inl err \<Longrightarrow>
     planSubQueries d (resolveOffsets opts parsed) opts = Inl err"
  by (auto simp: planOn_def planFilter_def Let_def split: sum.splits option.splits)

lemma baseSource_planOn:
  assumes "planOn d opts parsed source = Inr flat" and "baseSource source = source"
  shows "baseSource (flattenSource flat) = source"
proof -
  from assms(1) obtain below changed where
    b: "planFilter d opts (resolveOffsets opts parsed) source = Inr below"
    and f: "flat = planFlat (resolveOffsets opts parsed)
              (planGroup changed (resolveOffsets opts parsed) below)"
    by (auto simp: planOn_def Let_def split: sum.splits)
  from planFilter_shape [OF b] assms(2) have "baseSource below = source" by auto
  then show ?thesis
    unfolding f flattenSource_planFlat by (simp add: planGroup_def)
qed

lemma Plan_no_sentinel:
  assumes "Plan d opts sqlString = Some r"
  shows "(\<forall>s. Parse d s \<noteq> Inl ErrNestedFromSubquery) \<longrightarrow>
         (\<forall>q. planSubQueries d q opts \<noteq> Inl ErrNestedFromSubquery) \<longrightarrow>
         r \<noteq> Inl ErrNestedFromSubquery"
proof (rule Plan.raw_induct [where P = "\<lambda>d opts sqlString r.
         (\<forall>s. Parse d s \<noteq> Inl ErrNestedFromSubquery) \<longrightarrow>
         (\<forall>q. planSubQueries d q opts \<noteq> Inl ErrNestedFromSubquery) \<longrightarrow>
         r \<noteq> Inl ErrNestedFromSubquery", OF _ assms])
  fix Plan' d opts sqlString r
  assume IH: "\<And>d opts sqlString r. Plan' d opts sqlString = Some r \<Longrightarrow>
         (\<forall>s. Parse d s \<noteq> Inl ErrNestedFromSubquery) \<longrightarrow>
         (\<forall>q. planSubQueries d q opts \<noteq> Inl ErrNestedFromSubquery) \<longrightarrow>
         r \<noteq> Inl ErrNestedFromSubquery"
    and step: "(case Parse d sqlString of
        Inl err \<Rightarrow> Some (Inl err)
      | Inr query \<Rightarrow>
          (case FromSubQuery query of
             None \<Rightarrow> Some (planOn d opts query (Table (GetTable opts (From query))))
           | Some sq \<Rightarrow>
               Option.bind (Plan' d opts (SQL sq))
                 (\<lambda>r. case r of
                    Inl err \<Rightarrow> Some (Inl err)
                  | Inr subSource \<Rightarrow>
                      Some (planOn d opts query (core_Unflatten (SubQueryFields sq) subSource))))) =
      Some r"
  show "(\<forall>s. Parse d s \<noteq> Inl ErrNestedFromSubquery) \<longrightarrow>
         (\<forall>q. planSubQueries d q opts \<noteq> Inl ErrNestedFromSubquery) \<longrightarrow>
         r \<noteq> Inl ErrNestedFromSubquery"
  proof (intro impI)
    assume a: "\<forall>s. Parse d s \<noteq> Inl ErrNestedFromSubquery"
      and b: "\<forall>q. planSubQueries d q opts \<noteq> Inl ErrNestedFromSubquery"
    from planOn_error b have c: "planOn d opts q src \<noteq> Inl ErrNestedFromSubquery" for q src
      by blast
    from step a b c IH show "r \<noteq> Inl ErrNestedFromSubquery"
      by (auto split: sum.splits option.splits Option.bind_splits)
  qed
qed

text \<open>
  Claim C7 (FROM sub-queries), as amended. For a query with a FROM sub-query, \<^verbatim>\<open>Plan\<close>
  plans the SQL of the sub-query; when that gives a pipeline, the source of the plan is an
  Unflatten with the declared fields of the sub-query, connected to that pipeline; when it
  fails, \<^verbatim>\<open>Plan\<close> fails with the same error; when it does not return, neither does
  \<^verbatim>\<open>Plan\<close>. \<^verbatim>\<open>Plan\<close> never fails with \<^verbatim>\<open>ErrNestedFromSubquery\<close> unless the parser or
  \<^verbatim>\<open>planSubQueries\<close> returns it.
\<close>
theorem from_subquery_plan:
  assumes "Parse d sqlString = Inr query" and "FromSubQuery query = Some sq"
  shows "(\<forall>sub. Plan d opts (SQL sq) = Some (Inr sub) \<longrightarrow>
            Plan d opts sqlString =
              Some (planOn d opts query (core_Unflatten (SubQueryFields sq) sub)) \<and>
            (\<forall>flat. Plan d opts sqlString = Some (Inr flat) \<longrightarrow>
               baseSource (flattenSource flat) = core_Unflatten (SubQueryFields sq) sub)) \<and>
         (\<forall>err. Plan d opts (SQL sq) = Some (Inl err) \<longrightarrow>
            Plan d opts sqlString = Some (Inl err)) \<and>
         (Plan d opts (SQL sq) = None \<longrightarrow> Plan d opts sqlString = None) \<and>
         ((\<forall>s. Parse d s \<noteq> Inl ErrNestedFromSubquery) \<and>
          (\<forall>q. planSubQueries d q opts \<noteq> Inl ErrNestedFromSubquery) \<longrightarrow>
            Plan d opts sqlString \<noteq> Some (Inl ErrNestedFromSubquery))"
proof -
  have u: "Plan d opts sqlString =
      Option.bind (Plan d opts (SQL sq))
        (\<lambda>r. case r of Inl err \<Rightarrow> Some (Inl err)
            | Inr subSource \<Rightarrow>
                Some (planOn d opts query (core_Unflatten (SubQueryFields sq) subSource)))"
    by (subst Plan.simps) (simp add: assms)
  have 1: "Plan d opts sqlString =
              Some (planOn d opts query (core_Unflatten (SubQueryFields sq) sub)) \<and>
            (\<forall>flat. Plan d opts sqlString = Some (Inr flat) \<longrightarrow>
               baseSource (flattenSource flat) = core_Unflatten (SubQueryFields sq) sub)"
    if s: "Plan d opts (SQL sq) = Some (Inr sub)" for sub
  proof -
    have p: "Plan d opts sqlString =
        Some (planOn d opts query (core_Unflatten (SubQueryFields sq) sub))"
      unfolding u s by simp
    show ?thesis
      unfolding p using baseSource_planOn [of d opts query "core_Unflatten (SubQueryFields sq) sub"]
      by auto
  qed
  have 2: "Plan d opts sqlString = Some (Inl err)"
    if "Plan d opts (SQL sq) = Some (Inl err)" for err
    unfolding u that by simp
  have 3: "Plan d opts (SQL sq) = None \<longrightarrow> Plan d opts sqlString = None"
    unfolding u by simp
  have 4: "(\<forall>s. Parse d s \<noteq> Inl ErrNestedFromSubquery) \<and>
          (\<forall>q. planSubQueries d q opts \<noteq> Inl ErrNestedFromSubquery) \<longrightarrow>
            Plan d opts sqlString \<noteq> Some (Inl ErrNestedFromSubquery)"
    using Plan_no_sentinel [of d opts sqlString "Inl ErrNestedFromSubquery"] by blast
  from 1 2 3 4 show ?thesis by blast
qed


text \<open>
  Scenario D of the specification; a sub-query that does not parse; and a parser on which
  planning does not end.
\<close>
theorem from_subquery_plan_witness:
  "Plan demoDeps demoOpts ''SELECT * FROM (SELECT SUM(x) AS a FROM t)'' =
     Some (Inr (core_Flatten (core_Unflatten [''a'']
       (core_Flatten (core_Group [] [''a''] 0 zeroTime zeroTime (Table ''t'')))))) \<and>
   baseSource (flattenSource (core_Flatten (core_Unflatten [''a'']
       (core_Flatten (core_Group [] [''a''] 0 zeroTime zeroTime (Table ''t'')))))) =
     core_Unflatten [''a''] (core_Flatten (core_Group [] [''a''] 0 zeroTime zeroTime (Table ''t''))) \<and>
   Plan demoDeps demoOpts ''SELECT * FROM (SELEC)'' \<noteq> Some (Inl ErrNestedFromSubquery) \<and>
   Plan loopDeps demoOpts ''SELECT * FROM (SELECT 1)'' = None"
proof -
  let ?sq = "\<lparr>SQL = ''SELECT SUM(x) AS a FROM t'', SubQueryFields = [''a'']\<rparr>"
  let ?q = "demoQuery\<lparr>FromSubQuery := Some ?sq\<rparr>"
  let ?sub = "core_Flatten (core_Group [] [''a''] 0 zeroTime zeroTime (Table ''t''))"
  have h1: "Parse demoDeps ''SELECT * FROM (SELECT SUM(x) AS a FROM t)'' = Inr ?q"
    by (simp add: demoDeps_def demoParse_def)
  have h2: "FromSubQuery ?q = Some ?sq" by simp
  have s: "Plan demoDeps demoOpts (SQL ?sq) = Some (Inr ?sub)"
    by (subst Plan.simps)
       (simp add: demoDeps_def demoParse_def demoQuery_def demoOpts_def planOn_def
          resolveOffsets_def planFilter_def planGroup_def planFlat_def Let_def)
  note r = from_subquery_plan [OF h1 h2, of demoOpts, THEN conjunct1, rule_format, OF s]
  have p: "Plan demoDeps demoOpts ''SELECT * FROM (SELECT SUM(x) AS a FROM t)'' =
      Some (planOn demoDeps demoOpts ?q (core_Unflatten (SubQueryFields ?sq) ?sub))"
    by (rule r [THEN conjunct1])
  have v: "planOn demoDeps demoOpts ?q (core_Unflatten (SubQueryFields ?sq) ?sub) =
      Inr (core_Flatten (core_Unflatten [''a''] ?sub))"
    by (simp add: demoDeps_def demoQuery_def demoOpts_def planOn_def
          resolveOffsets_def planFilter_def planGroup_def planFlat_def Let_def
          asOfChanged_def untilChanged_def resolutionChanged_def IsZero_def)
  have 1: "Plan demoDeps demoOpts ''SELECT * FROM (SELECT SUM(x) AS a FROM t)'' =
      Some (Inr (core_Flatten (core_Unflatten [''a''] ?sub)))"
    unfolding p v ..
  have 2: "baseSource (flattenSource (core_Flatten (core_Unflatten [''a''] ?sub))) =
      core_Unflatten [''a''] ?sub"
    using r [THEN conjunct2, rule_format, OF 1] by simp
  let ?bsq = "\<lparr>SQL = ''SELEC'', SubQueryFields = []\<rparr>"
  let ?bq = "demoQuery\<lparr>FromSubQuery := Some ?bsq\<rparr>"
  have b1: "Parse demoDeps ''SELECT * FROM (SELEC)'' = Inr ?bq"
    by (simp add: demoDeps_def demoParse_def)
  have b2: "FromSubQuery ?bq = Some ?bsq" by simp
  have b3: "\<forall>s. Parse demoDeps s \<noteq> Inl ErrNestedFromSubquery"
    by (simp add: demoDeps_def demoParse_def)
  have b4: "\<forall>q. planSubQueries demoDeps q demoOpts \<noteq> Inl ErrNestedFromSubquery"
    by (simp add: demoDeps_def)
  have 3: "Plan demoDeps demoOpts ''SELECT * FROM (SELEC)'' \<noteq> Some (Inl ErrNestedFromSubquery)"
    by (rule from_subquery_plan [OF b1 b2, of demoOpts, THEN conjunct2, THEN conjunct2,
          THEN conjunct2, rule_format, OF conjI [OF b3 b4]])
  let ?lsq = "\<lparr>SQL = ''SELECT * FROM (SELECT 1)'', SubQueryFields = []\<rparr>"
  let ?lq = "demoQuery\<lparr>FromSubQuery := Some ?lsq\<rparr>"
  have l1: "Parse loopDeps ''SELECT * FROM (SELECT 1)'' = Inr ?lq"
    by (simp add: loopDeps_def)
  have l2: "FromSubQuery ?lq = Some ?lsq" by simp
  have l3: "Plan loopDeps demoOpts (SQL ?lsq) = None" by (rule Plan_loops)
  have 4: "Plan loopDeps demoOpts ''SELECT * FROM (SELECT 1)'' = None"
    by (rule from_subquery_plan [OF l1 l2, of demoOpts, THEN conjunct2, THEN conjunct2,
          THEN conjunct1, rule_format, OF l3])
  from 1 2 3 4 show ?thesis by (intro conjI)
qed

text \<open>
  A FROM sub-query that cannot be planned, because its SQL does not parse: \<^verbatim>\<open>Plan\<close>
  fails with the error of the parser, not with \<^verbatim>\<open>ErrNestedFromSubquery\<close>.
\<close>
theorem from_subquery_plan_counterexample:
  "Plan demoDeps demoOpts ''SELECT * FROM (SELEC)'' = Some (Inl (Err ''syntax error'')) \<and>
   Plan demoDeps demoOpts ''SELECT * FROM (SELEC)'' \<noteq> Some (Inl ErrNestedFromSubquery)"
proof -
  have s: "Plan demoDeps demoOpts ''SELEC'' = Some (Inl (Err ''syntax error''))"
    by (subst Plan.simps) (simp add: demoDeps_def demoParse_def)
  have "Plan demoDeps demoOpts ''SELECT * FROM (SELEC)'' = Some (Inl (Err ''syntax error''))"
    by (subst Plan.simps) (simp add: demoDeps_def demoParse_def s [unfolded demoDeps_def])
  then show ?thesis by simp
qed

subsection \<open>The predicate of the filter\<close>

text \<open>
  Claim C6 (sub-query errors). In a call of the predicate that runs the sub-queries: when
  \<^verbatim>\<open>runSubQueries\<close> returns the deadline-exceeded error, the predicate does what it does
  when the sub-queries have run before, it evaluates the WHERE expression on the key, and
  returns its boolean without error; when \<^verbatim>\<open>runSubQueries\<close> returns any other error, the
  predicate returns false and that error.
\<close>
theorem subquery_error_handling:
  assumes "hasRunSubqueries st = 0"
  shows "(runSubQueries f ctx = Some ErrDeadlineExceeded \<longrightarrow>
            fst (Include f st ctx k) = evalWhere (queryWhere f) k \<and>
            (\<forall>b. queryWhere f k = VBool b \<longrightarrow> fst (Include f st ctx k) = Returned (b, None))) \<and>
         (\<forall>e. runSubQueries f ctx = Some e \<and> e \<noteq> ErrDeadlineExceeded \<longrightarrow>
            fst (Include f st ctx k) = Returned (False, Some e)) \<and>
         subQueryRuns (snd (Include f st ctx k)) = subQueryRuns st + 1"
  using assms by (auto simp: Include_def Let_def evalWhere_def)

text \<open>A deadline in context 1, another error in context 2.\<close>
theorem subquery_error_handling_witness:
  "fst (Include slowClosure newFilter 1 [7]) = Returned (True, None) \<and>
   fst (Include slowClosure newFilter 2 [7]) = Returned (False, Some (Err ''table gone''))"
proof -
  have h: "hasRunSubqueries newFilter = 0" by (simp add: newFilter_def)
  have d: "runSubQueries slowClosure 1 = Some ErrDeadlineExceeded"
    and e: "runSubQueries slowClosure 2 = Some (Err ''table gone'') \<and>
            Err ''table gone'' \<noteq> ErrDeadlineExceeded"
    and w: "queryWhere slowClosure [7] = VBool True"
    by (simp_all add: slowClosure_def)
  from subquery_error_handling [OF h, of slowClosure 1 "[7]"] d w
  have 1: "fst (Include slowClosure newFilter 1 [7]) = Returned (True, None)" by blast
  from subquery_error_handling [OF h, of slowClosure 2 "[7]"] e
  have 2: "fst (Include slowClosure newFilter 2 [7]) = Returned (False, Some (Err ''table gone''))"
    by blast
  from 1 2 show ?thesis by simp
qed

subsection \<open>Sub-queries run once\<close>

lemma count_update:
  "i < length xs \<Longrightarrow>
     length (filter P (xs[i := v])) + (if P (xs ! i) then 1 else 0) =
     length (filter P xs) + (if P v then 1 else 0)"
proof (induction xs arbitrary: i)
  case Nil
  then show ?case by simp
next
  case (Cons x xs)
  then show ?case by (cases i) auto
qed

lemma atRun_simps [simp]:
  "atRun (s\<lparr>flag := x\<rparr>) = atRun s"
  "atRun (s\<lparr>events := e\<rparr>) = atRun s"
  "atRun (s\<lparr>flag := x, callers := cs\<rparr>) = atRun (s\<lparr>callers := cs\<rparr>)"
  by (simp_all add: atRun_def)

lemma subQueryRunCount_simps [simp]:
  "subQueryRunCount (s\<lparr>flag := x\<rparr>) = subQueryRunCount s"
  "subQueryRunCount (s\<lparr>callers := cs\<rparr>) = subQueryRunCount s"
  "subQueryRunCount (s\<lparr>events := events s @ es\<rparr>) =
     subQueryRunCount s + length (filter isRan es)"
  by (simp_all add: subQueryRunCount_def)

lemma atRun_update:
  "i < length (callers s) \<Longrightarrow>
     atRun (s\<lparr>callers := (callers s)[i := v]\<rparr>) +
       (if callers s ! i = AtRunSubQueries then 1 else 0) =
     atRun s + (if v = AtRunSubQueries then 1 else 0)"
  using count_update [of i "callers s" "\<lambda>p. p = AtRunSubQueries" v]
  by (simp add: atRun_def)

lemma runInv_start: "runInv (startRun n)"
  by (simp add: runInv_def startRun_def atRun_def subQueryRunCount_def)

lemma runInv_step:
  assumes "runInv s"
  shows "runInv (stepCaller f s a)"
proof -
  obtain i ctx k where a: "a = (i, ctx, k)" by (cases a)
  show ?thesis
  proof (cases "i < length (callers s)")
    case False
    with assms show ?thesis by (simp add: stepCaller_def a)
  next
    case True
    note up = atRun_update [OF True]
    show ?thesis
    proof (cases "callers s ! i")
      case AtCompareAndSwap
      show ?thesis
      proof (cases "flag s = 0")
        case True
        have st: "stepCaller f s a = s\<lparr>flag := 1, callers := (callers s)[i := AtRunSubQueries]\<rparr>"
          using \<open>i < length (callers s)\<close> AtCompareAndSwap True by (simp add: stepCaller_def a)
        from up [of AtRunSubQueries] AtCompareAndSwap
        have "atRun (s\<lparr>callers := (callers s)[i := AtRunSubQueries]\<rparr>) = atRun s + 1" by simp
        with assms True show ?thesis
          unfolding st by (simp add: runInv_def)
      next
        case False
        have st: "stepCaller f s a = s\<lparr>callers := (callers s)[i := AtEval]\<rparr>"
          using \<open>i < length (callers s)\<close> AtCompareAndSwap False by (simp add: stepCaller_def a)
        from up [of AtEval] AtCompareAndSwap
        have "atRun (s\<lparr>callers := (callers s)[i := AtEval]\<rparr>) = atRun s" by simp
        with assms False show ?thesis
          unfolding st by (simp add: runInv_def)
      qed
    next
      case AtRunSubQueries
      obtain v es where st: "stepCaller f s a = s\<lparr>callers := (callers s)[i := v], events := events s @ es\<rparr>"
        and v: "v \<noteq> AtRunSubQueries" and es: "length (filter isRan es) = 1"
        using \<open>i < length (callers s)\<close> AtRunSubQueries
        by (cases "runSubQueries f ctx \<noteq> None \<and> runSubQueries f ctx \<noteq> Some ErrDeadlineExceeded")
           (auto simp: stepCaller_def a Let_def)
      from up [of v] AtRunSubQueries v
      have c: "atRun (s\<lparr>callers := (callers s)[i := v]\<rparr>) + 1 = atRun s" by simp
      have e: "events (s\<lparr>callers := (callers s)[i := v]\<rparr>) = events s" by simp
      have "subQueryRunCount (s\<lparr>callers := (callers s)[i := v], events := events s @ es\<rparr>) =
          subQueryRunCount s + 1"
        using subQueryRunCount_simps(3) [of "s\<lparr>callers := (callers s)[i := v]\<rparr>" es] es
        by (simp add: e)
      moreover have "atRun (s\<lparr>callers := (callers s)[i := v], events := events s @ es\<rparr>) + 1 = atRun s"
        using c by simp
      moreover have "flag (s\<lparr>callers := (callers s)[i := v], events := events s @ es\<rparr>) = flag s"
        by simp
      ultimately show ?thesis
        unfolding st using assms by (simp only: runInv_def) arith
    next
      case AtEval
      have st: "stepCaller f s a = s\<lparr>callers := (callers s)[i := Done (evalWhere (queryWhere f) k)],
          events := events s @ [Completed i]\<rparr>"
        using \<open>i < length (callers s)\<close> AtEval by (simp add: stepCaller_def a)
      from up [of "Done (evalWhere (queryWhere f) k)"] AtEval
      have c: "atRun (s\<lparr>callers := (callers s)[i := Done (evalWhere (queryWhere f) k)]\<rparr>) = atRun s"
        by simp
      have e: "events (s\<lparr>callers := (callers s)[i := Done (evalWhere (queryWhere f) k)]\<rparr>) = events s"
        by simp
      have "subQueryRunCount (s\<lparr>callers := (callers s)[i := Done (evalWhere (queryWhere f) k)],
          events := events s @ [Completed i]\<rparr>) = subQueryRunCount s"
        using subQueryRunCount_simps(3)
          [of "s\<lparr>callers := (callers s)[i := Done (evalWhere (queryWhere f) k)]\<rparr>" "[Completed i]"]
        by (simp add: e)
      with assms c show ?thesis
        unfolding st by (simp add: runInv_def)
    next
      case (Done r)
      have st: "stepCaller f s a = s\<lparr>callers := (callers s)[i := AtCompareAndSwap]\<rparr>"
        using \<open>i < length (callers s)\<close> Done by (simp add: stepCaller_def a)
      from up [of AtCompareAndSwap] Done
      have "atRun (s\<lparr>callers := (callers s)[i := AtCompareAndSwap]\<rparr>) = atRun s" by simp
      with assms show ?thesis
        unfolding st by (simp add: runInv_def)
    qed
  qed
qed

lemma runInv_run: "runInv s \<Longrightarrow> runInv (runCallers f s sched)"
  unfolding runCallers_def
  by (induction sched arbitrary: s) (simp_all add: runInv_step)

lemma Include_flag: "hasRunSubqueries (snd (Include f st ctx k)) \<noteq> 0"
  by (simp add: Include_def Let_def)

lemma Include_runs:
  "subQueryRuns (snd (Include f st ctx k)) =
     subQueryRuns st + (if hasRunSubqueries st = 0 then 1 else 0)"
  by (simp add: Include_def Let_def)

lemma IncludeEach_runs:
  "subQueryRuns (snd (IncludeEach f st calls)) =
     subQueryRuns st + (if hasRunSubqueries st = 0 \<and> calls \<noteq> [] then 1 else 0)"
proof (induction calls arbitrary: st)
  case Nil
  then show ?case by simp
next
  case (Cons c calls)
  obtain ctx k where c: "c = (ctx, k)" by (cases c)
  obtain r st1 where i: "Include f st ctx k = (r, st1)" by (cases "Include f st ctx k")
  from Include_flag [of f st ctx k] Include_runs [of f st ctx k] i
  have 1: "hasRunSubqueries st1 \<noteq> 0"
    and 2: "subQueryRuns st1 = subQueryRuns st + (if hasRunSubqueries st = 0 then 1 else 0)"
    by simp_all
  show ?case
    unfolding c using Cons.IH [of st1] 1 2
    by (cases "IncludeEach f st1 calls") (simp add: i)
qed


text \<open>One caller alone, stepped to its return, gets what \<^verbatim>\<open>Include\<close> returns.\<close>
lemma solo_call_agrees:
  "callers (runCallers f (startRun 1)
     ((0, ctx, k) # (0, ctx, k) #
        (if runSubQueries f ctx \<noteq> None \<and> runSubQueries f ctx \<noteq> Some ErrDeadlineExceeded
         then [] else [(0, ctx, k)]))) =
   [Done (fst (Include f newFilter ctx k))]"
  by (simp add: runCallers_def startRun_def stepCaller_def Let_def Include_def newFilter_def)

lemma solo_call_events:
  "events (runCallers f (startRun 1) [(0, ctx, k), (0, ctx, k), (0, ctx, k)]) =
     [RanSubQueries 0, Completed 0]"
  by (simp add: runCallers_def startRun_def stepCaller_def Let_def)

text \<open>
  Claim C3 (sub-query one-shot), as amended. However the steps of any number of callers of
  the predicate interleave, \<^verbatim>\<open>runSubQueries\<close> is run at most once. When the calls come one
  after the other, it is run exactly once if there is a call and not at all otherwise; it
  is run in the first call, before that call evaluates the WHERE expression and returns.
\<close>
theorem subqueries_at_most_once:
  "subQueryRunCount (runCallers f (startRun n) sched) \<le> 1 \<and>
   subQueryRuns (snd (IncludeEach f newFilter calls)) = (if calls = [] then 0 else 1) \<and>
   subQueryRuns (snd (Include f newFilter ctx k)) = 1 \<and>
   events (runCallers f (startRun 1) [(0, ctx, k), (0, ctx, k), (0, ctx, k)]) =
     [RanSubQueries 0, Completed 0]"
proof -
  have "runInv (runCallers f (startRun n) sched)"
    by (rule runInv_run [OF runInv_start])
  then have "subQueryRunCount (runCallers f (startRun n) sched) \<le> 1"
    by (simp add: runInv_def)
  moreover have "subQueryRuns (snd (IncludeEach f newFilter calls)) = (if calls = [] then 0 else 1)"
    using IncludeEach_runs [of f newFilter calls] by (simp add: newFilter_def)
  moreover have "subQueryRuns (snd (Include f newFilter ctx k)) = 1"
    using Include_runs [of f newFilter ctx k] by (simp add: newFilter_def)
  ultimately show ?thesis
    using solo_call_events [of f ctx k] by simp
qed

text \<open>
  Two callers: caller 0 wins the compare-and-swap, and before it has run the sub-queries
  caller 1 loses it, evaluates the WHERE expression and returns. A predicate evaluation
  has completed and the sub-queries have not run. And a filter that is never called never
  runs them.
\<close>
theorem subqueries_at_most_once_counterexample:
  "events (runCallers demoClosure (startRun 2) [(0, 0, [7]), (1, 0, [7]), (1, 0, [7])]) =
     [Completed 1] \<and>
   subQueryRunCount (runCallers demoClosure (startRun 2) [(0, 0, [7]), (1, 0, [7]), (1, 0, [7])]) = 0 \<and>
   subQueryRuns (snd (IncludeEach demoClosure newFilter [])) = 0"
  by (simp add: runCallers_def startRun_def stepCaller_def subQueryRunCount_def numeral_2_eq_2
      newFilter_def)

end
